theory Spec2Isabelle
  imports Complex_Main "HOL-Library.Log_Nat"
begin

section \<open>Object-detection evaluation notebook: data model\<close>

text \<open>
  The notebook's own logic is \<open>calculate_iou\<close>, the loop of
  \<open>evaluate_model_performance\<close> and the labelling loops of
  \<open>run_detector_and_visualize\<close> and \<open>process_uploaded_image\<close>.
  Python's integers are unbounded, so counters are \<open>int\<close>.  The box
  coordinates are elements of float32 arrays, so the arithmetic of
  \<open>calculate_iou\<close> is IEEE binary32 arithmetic: every result is rounded to
  nearest (ties to even), overflows to an infinity, underflows gradually to
  zero, and an undefined operation gives NaN.
\<close>

datatype error = ZeroDivisionError | UnboundLocalError | IndexError

section \<open>Binary32 arithmetic\<close>

text \<open>
  A float32 value is a finite number, an infinity or NaN.  The two zeros are
  not told apart: they compare equal, and no division by zero is reached
  where their sign could show.
\<close>

datatype f32 = Fin real | PInf | NInf | NaN

text \<open>\<open>ilog2 a\<close> is the binary exponent of a positive \<open>a\<close>: the \<open>e\<close>
  with \<open>2^e \<le> a < 2^(e+1)\<close>.\<close>

definition ilog2 :: "real \<Rightarrow> int" where
  "ilog2 a = (if 1 \<le> a then int (floorlog 2 (nat \<lfloor>a\<rfloor>)) - 1
              else - int (floorlog 2 (nat (\<lceil>1 / a\<rceil> - 1))))"

text \<open>Rounding to the nearest integer, ties to the even one.\<close>

definition rne :: "real \<Rightarrow> int" where
  "rne y = (let f = \<lfloor>y\<rfloor>; d = y - of_int f in
            if d < 1 / 2 then f else if 1 / 2 < d then f + 1
            else if even f then f else f + 1)"

text \<open>The exponent of the unit in the last place: 24 significant bits, and
  no spacing finer than \<open>2^-149\<close>, the smallest subnormal.\<close>

definition ulp_exp :: "real \<Rightarrow> int" where
  "ulp_exp a = max (ilog2 a - 23) (- 149)"

text \<open>Rounding a magnitude to the float32 grid, the exponent not yet
  bounded above.\<close>

definition round_mag :: "real \<Rightarrow> real" where
  "round_mag a = (if a = 0 then 0
                  else of_int (rne (a / 2 powi ulp_exp a)) * 2 powi ulp_exp a)"

text \<open>The float32 result of an exact value: a rounded magnitude of \<open>2^128\<close>
  or more is an overflow.\<close>

definition f32_round :: "real \<Rightarrow> f32" where
  "f32_round x = (let m = round_mag \<bar>x\<bar> in
                  if 2 ^ 128 \<le> m then (if x < 0 then NInf else PInf)
                  else Fin (if x < 0 then - m else m))"

fun f32_neg :: "f32 \<Rightarrow> f32" where
  "f32_neg (Fin x) = Fin (- x)"
| "f32_neg PInf = NInf"
| "f32_neg NInf = PInf"
| "f32_neg NaN = NaN"

fun f32_add :: "f32 \<Rightarrow> f32 \<Rightarrow> f32" where
  "f32_add (Fin x) (Fin y) = f32_round (x + y)"
| "f32_add NaN b = NaN"
| "f32_add a NaN = NaN"
| "f32_add PInf NInf = NaN"
| "f32_add NInf PInf = NaN"
| "f32_add PInf b = PInf"
| "f32_add a PInf = PInf"
| "f32_add NInf b = NInf"
| "f32_add a NInf = NInf"

definition f32_sub :: "f32 \<Rightarrow> f32 \<Rightarrow> f32" where
  "f32_sub a b = f32_add a (f32_neg b)"

fun f32_mul :: "f32 \<Rightarrow> f32 \<Rightarrow> f32" where
  "f32_mul (Fin x) (Fin y) = f32_round (x * y)"
| "f32_mul NaN b = NaN"
| "f32_mul a NaN = NaN"
| "f32_mul (Fin x) PInf = (if x = 0 then NaN else if 0 < x then PInf else NInf)"
| "f32_mul (Fin x) NInf = (if x = 0 then NaN else if 0 < x then NInf else PInf)"
| "f32_mul PInf (Fin y) = (if y = 0 then NaN else if 0 < y then PInf else NInf)"
| "f32_mul NInf (Fin y) = (if y = 0 then NaN else if 0 < y then NInf else PInf)"
| "f32_mul PInf PInf = PInf"
| "f32_mul PInf NInf = NInf"
| "f32_mul NInf PInf = NInf"
| "f32_mul NInf NInf = PInf"

text \<open>Division of NumPy scalars does not raise on a zero divisor: it gives
  an infinity or NaN.\<close>

fun f32_div :: "f32 \<Rightarrow> f32 \<Rightarrow> f32" where
  "f32_div (Fin x) (Fin y) =
     (if y = 0 then (if x = 0 then NaN else if 0 < x then PInf else NInf)
      else f32_round (x / y))"
| "f32_div NaN b = NaN"
| "f32_div a NaN = NaN"
| "f32_div (Fin x) PInf = Fin 0"
| "f32_div (Fin x) NInf = Fin 0"
| "f32_div PInf (Fin y) = (if 0 \<le> y then PInf else NInf)"
| "f32_div NInf (Fin y) = (if 0 \<le> y then NInf else PInf)"
| "f32_div PInf b = NaN"
| "f32_div NInf b = NaN"

text \<open>Comparisons: every comparison with NaN is false.\<close>

fun f32_lt :: "f32 \<Rightarrow> f32 \<Rightarrow> bool" where
  "f32_lt (Fin x) (Fin y) = (x < y)"
| "f32_lt NaN b = False"
| "f32_lt a NaN = False"
| "f32_lt PInf b = False"
| "f32_lt a NInf = False"
| "f32_lt a PInf = True"
| "f32_lt NInf b = True"

definition f32_gt :: "f32 \<Rightarrow> f32 \<Rightarrow> bool" where
  "f32_gt a b = f32_lt b a"

fun f32_eq :: "f32 \<Rightarrow> f32 \<Rightarrow> bool" where
  "f32_eq (Fin x) (Fin y) = (x = y)"
| "f32_eq PInf PInf = True"
| "f32_eq NInf NInf = True"
| "f32_eq a b = False"

fun is_finite :: "f32 \<Rightarrow> bool" where
  "is_finite (Fin x) = True"
| "is_finite a = False"

text \<open>Python's \<open>max(a, b)\<close> and \<open>min(a, b)\<close> keep the first argument unless
  the second compares greater, respectively less.  The integer \<open>0\<close> of
  \<open>max(0, ...)\<close> is the number \<open>Fin 0\<close>.\<close>

definition py_max :: "f32 \<Rightarrow> f32 \<Rightarrow> f32" where
  "py_max a b = (if f32_gt b a then b else a)"

definition py_min :: "f32 \<Rightarrow> f32 \<Rightarrow> f32" where
  "py_min a b = (if f32_lt b a then b else a)"

text \<open>Python's true division of integers, \<open>a / b\<close>: raises on a zero
  divisor.  The quotient is taken exactly.\<close>

definition truediv :: "real \<Rightarrow> real \<Rightarrow> error + real" where
  "truediv a b = (if b = 0 then Inl ZeroDivisionError else Inr (a / b))"

section \<open>calculate_iou\<close>

text \<open>A box is the four-element sequence the code indexes with 0..3; its
  elements are finite float32 numbers, given by their values.\<close>

type_synonym box = "real \<times> real \<times> real \<times> real"

definition calculate_iou :: "box \<Rightarrow> box \<Rightarrow> f32" where
  "calculate_iou box1 box2 =
     (case box1 of (b1_0, b1_1, b1_2, b1_3) \<Rightarrow>
      case box2 of (b2_0, b2_1, b2_2, b2_3) \<Rightarrow>
        let y1 = py_max (Fin b1_0) (Fin b2_0);
            x1 = py_max (Fin b1_1) (Fin b2_1);
            y2 = py_min (Fin b1_2) (Fin b2_2);
            x2 = py_min (Fin b1_3) (Fin b2_3);
            intersection_area =
              f32_mul (py_max (Fin 0) (f32_sub y2 y1)) (py_max (Fin 0) (f32_sub x2 x1));
            box1_area = f32_mul (f32_sub (Fin b1_2) (Fin b1_0)) (f32_sub (Fin b1_3) (Fin b1_1));
            box2_area = f32_mul (f32_sub (Fin b2_2) (Fin b2_0)) (f32_sub (Fin b2_3) (Fin b2_1));
            union_area = f32_sub (f32_add box1_area box2_area) intersection_area
        in if f32_eq union_area (Fin 0) then Fin 0
           else f32_div intersection_area union_area)"

text \<open>
  Vocabulary of the properties, named after the local variables of
  \<open>calculate_iou\<close> and the box invariant of the data model.
\<close>

definition valid_box :: "box \<Rightarrow> bool" where
  "valid_box b = (case b of (ymin, xmin, ymax, xmax) \<Rightarrow> ymin \<le> ymax \<and> xmin \<le> xmax)"

definition non_degenerate :: "box \<Rightarrow> bool" where
  "non_degenerate b = (case b of (ymin, xmin, ymax, xmax) \<Rightarrow> ymin < ymax \<and> xmin < xmax)"

definition degenerate :: "box \<Rightarrow> bool" where
  "degenerate b = (case b of (ymin, xmin, ymax, xmax) \<Rightarrow> ymin = ymax \<or> xmin = xmax)"

definition box_area :: "box \<Rightarrow> f32" where
  "box_area b = (case b of (ymin, xmin, ymax, xmax) \<Rightarrow>
     f32_mul (f32_sub (Fin ymax) (Fin ymin)) (f32_sub (Fin xmax) (Fin xmin)))"

definition intersection_area :: "box \<Rightarrow> box \<Rightarrow> f32" where
  "intersection_area box1 box2 =
     (case box1 of (b1_0, b1_1, b1_2, b1_3) \<Rightarrow>
      case box2 of (b2_0, b2_1, b2_2, b2_3) \<Rightarrow>
        f32_mul
          (py_max (Fin 0)
             (f32_sub (py_min (Fin b1_2) (Fin b2_2)) (py_max (Fin b1_0) (Fin b2_0))))
          (py_max (Fin 0)
             (f32_sub (py_min (Fin b1_3) (Fin b2_3)) (py_max (Fin b1_1) (Fin b2_1)))))"

definition union_area :: "box \<Rightarrow> box \<Rightarrow> f32" where
  "union_area box1 box2 =
     f32_sub (f32_add (box_area box1) (box_area box2)) (intersection_area box1 box2)"

section \<open>evaluate_model_performance\<close>

text \<open>
  The detector is a black box: a function from an image to three parallel
  arrays (the batch axis, always indexed with 0, is dropped).  Class ids are
  taken as already integral, which is what \<open>astype(int)\<close> and \<open>int(...)\<close>
  make of them.
\<close>

record detections =
  detection_boxes :: "box list"
  detection_scores :: "real list"
  detection_classes :: "int list"

text \<open>A dataset record: \<open>example["image"]\<close>, \<open>example["objects"]["bbox"]\<close>
  and \<open>example["objects"]["label"]\<close>.\<close>

record 'img example =
  ex_image :: 'img
  objects_bbox :: "box list"
  objects_label :: "int list"

text \<open>
  The local variables of \<open>evaluate_model_performance\<close> that outlive one
  iteration.  \<open>gt_index\<close> is assigned only inside the inner loop, so it is
  unbound (\<open>None\<close>) until some ground-truth box has had a positive IoU, and
  it keeps its value from one detection, and one image, to the next.
\<close>

record eval_state =
  true_positives :: int
  false_positives :: int
  false_negatives :: int
  gt_index :: "nat option"

text \<open>The inner loop \<open>for j, gt_box in enumerate(gt_boxes)\<close>, on the pair
  \<open>(best_iou, gt_index)\<close>.\<close>

fun find_best :: "box \<Rightarrow> (nat \<times> box) list \<Rightarrow> f32 \<times> nat option \<Rightarrow> f32 \<times> nat option" where
  "find_best pred_box [] (best_iou, gt_idx) = (best_iou, gt_idx)"
| "find_best pred_box ((j, gt_box) # rest) (best_iou, gt_idx) =
     (let iou = calculate_iou gt_box pred_box in
      if f32_gt iou best_iou then find_best pred_box rest (iou, Some j)
      else find_best pred_box rest (best_iou, gt_idx))"

text \<open>The reordering \<open>[pred_box[1], pred_box[0], pred_box[3], pred_box[2]]\<close>.\<close>

definition convert_box :: "box \<Rightarrow> box" where
  "convert_box pred_box = (case pred_box of (p0, p1, p2, p3) \<Rightarrow> (p1, p0, p3, p2))"

text \<open>
  One iteration of \<open>for i, score in enumerate(pred_scores)\<close>.  Reading an
  array past its end raises IndexError, and reading \<open>gt_index\<close> before any
  assignment raises UnboundLocalError; the operands of \<open>==\<close> are evaluated
  left to right.  Scores and the threshold are finite numbers, compared by
  their values; \<open>best_iou\<close> starts as the integer 0.
\<close>

definition process_detection ::
  "real \<Rightarrow> box list \<Rightarrow> int list \<Rightarrow> box list \<Rightarrow> int list \<Rightarrow> nat \<times> real \<Rightarrow> eval_state
     \<Rightarrow> error + eval_state" where
  "process_detection iou_threshold gt_boxes gt_labels pred_boxes pred_labels d st =
     (case d of (i, score) \<Rightarrow>
        if score < 0.5 then Inr st
        else if \<not> i < length pred_boxes then Inl IndexError
        else
          let pred_box = convert_box (pred_boxes ! i) in
          case find_best pred_box (enumerate 0 gt_boxes) (Fin 0, gt_index st) of
            (best_iou, gt_idx) \<Rightarrow>
              let st1 = st\<lparr>gt_index := gt_idx\<rparr> in
              if f32_gt best_iou (Fin iou_threshold) then
                if \<not> i < length pred_labels then Inl IndexError
                else case gt_idx of
                    None \<Rightarrow> Inl UnboundLocalError
                  | Some g \<Rightarrow>
                      if \<not> g < length gt_labels then Inl IndexError
                      else if pred_labels ! i = gt_labels ! g
                        then Inr (st1\<lparr>true_positives := true_positives st1 + 1\<rparr>)
                        else Inr (st1\<lparr>false_positives := false_positives st1 + 1\<rparr>)
              else Inr (st1\<lparr>false_positives := false_positives st1 + 1\<rparr>))"

fun detections_loop ::
  "real \<Rightarrow> box list \<Rightarrow> int list \<Rightarrow> box list \<Rightarrow> int list \<Rightarrow> (nat \<times> real) list \<Rightarrow> eval_state
     \<Rightarrow> error + eval_state" where
  "detections_loop iou_threshold gt_boxes gt_labels pred_boxes pred_labels [] st = Inr st"
| "detections_loop iou_threshold gt_boxes gt_labels pred_boxes pred_labels (d # ds) st =
     (case process_detection iou_threshold gt_boxes gt_labels pred_boxes pred_labels d st of
        Inl e \<Rightarrow> Inl e
      | Inr st' \<Rightarrow>
          detections_loop iou_threshold gt_boxes gt_labels pred_boxes pred_labels ds st')"

text \<open>The body of \<open>for example in dataset.take(num_samples)\<close>; its last
  statement is \<open>false_negatives += len(gt_boxes) - true_positives\<close>.\<close>

definition process_example ::
  "('img \<Rightarrow> detections) \<Rightarrow> real \<Rightarrow> 'img example \<Rightarrow> eval_state \<Rightarrow> error + eval_state" where
  "process_example detector iou_threshold ex st =
     (let gt_boxes = objects_bbox ex;
          gt_labels = objects_label ex;
          result = detector (ex_image ex);
          pred_boxes = detection_boxes result;
          pred_scores = detection_scores result;
          pred_labels = detection_classes result
      in case detections_loop iou_threshold gt_boxes gt_labels pred_boxes pred_labels
                (enumerate 0 pred_scores) st of
           Inl e \<Rightarrow> Inl e
         | Inr st' \<Rightarrow>
             Inr (st'\<lparr>false_negatives :=
                        false_negatives st' + (int (length gt_boxes) - true_positives st')\<rparr>))"

fun examples_loop ::
  "('img \<Rightarrow> detections) \<Rightarrow> real \<Rightarrow> 'img example list \<Rightarrow> eval_state \<Rightarrow> error + eval_state" where
  "examples_loop detector iou_threshold [] st = Inr st"
| "examples_loop detector iou_threshold (ex # exs) st =
     (case process_example detector iou_threshold ex st of
        Inl e \<Rightarrow> Inl e
      | Inr st' \<Rightarrow> examples_loop detector iou_threshold exs st')"

text \<open>What the function prints: the three counters, precision and recall
  (the values, before the two-decimal formatting).\<close>

record report =
  reported_tp :: int
  reported_fp :: int
  reported_fn :: int
  precision :: real
  recall :: real

definition initial_state :: eval_state where
  "initial_state = \<lparr>true_positives = 0, false_positives = 0, false_negatives = 0,
                     gt_index = None\<rparr>"

text \<open>The two conditional expressions after the loop, and the report.\<close>

definition summarize :: "eval_state \<Rightarrow> error + report" where
  "summarize st =
     (let tp = true_positives st; fp = false_positives st; fn = false_negatives st in
      case (if tp + fp > 0 then truediv (of_int tp) (of_int (tp + fp)) else Inr 0) of
        Inl e \<Rightarrow> Inl e
      | Inr p \<Rightarrow>
          (case (if tp + fn > 0 then truediv (of_int tp) (of_int (tp + fn)) else Inr 0) of
             Inl e \<Rightarrow> Inl e
           | Inr r \<Rightarrow>
               Inr \<lparr>reported_tp = tp, reported_fp = fp, reported_fn = fn,
                    precision = p, recall = r\<rparr>))"

text \<open>The dataset is the finite sequence of its records; \<open>take\<close> yields the
  first \<open>num_samples\<close> of them, or all when there are fewer.\<close>

definition evaluate_model_performance ::
  "'img example list \<Rightarrow> ('img \<Rightarrow> detections) \<Rightarrow> real \<Rightarrow> nat \<Rightarrow> error + report" where
  "evaluate_model_performance dataset detector iou_threshold num_samples =
     (case examples_loop detector iou_threshold (take num_samples dataset) initial_state of
        Inl e \<Rightarrow> Inl e
      | Inr st \<Rightarrow> summarize st)"

text \<open>Vocabulary of the properties: the detections that pass the
  confidence filter, and arrays long enough to be indexed.\<close>

definition surviving :: "real list \<Rightarrow> nat" where
  "surviving scores = length (filter (\<lambda>score. \<not> score < 0.5) scores)"

definition surviving_all :: "('img \<Rightarrow> detections) \<Rightarrow> 'img example list \<Rightarrow> nat" where
  "surviving_all detector exs =
     sum_list (map (\<lambda>ex. surviving (detection_scores (detector (ex_image ex)))) exs)"

definition well_shaped :: "('img \<Rightarrow> detections) \<Rightarrow> 'img example \<Rightarrow> bool" where
  "well_shaped detector ex =
     (length (objects_bbox ex) \<le> length (objects_label ex) \<and>
      length (detection_scores (detector (ex_image ex)))
        \<le> length (detection_boxes (detector (ex_image ex))) \<and>
      length (detection_scores (detector (ex_image ex)))
        \<le> length (detection_classes (detector (ex_image ex))))"

section \<open>Labelling loops\<close>

text \<open>Indexing a Python list with an integer: a negative index counts from
  the end, and an index outside the list raises IndexError.\<close>

definition getitem :: "'a list \<Rightarrow> int \<Rightarrow> error + 'a" where
  "getitem xs k =
     (if 0 \<le> k \<and> k < int (length xs) then Inr (xs ! nat k)
      else if k < 0 \<and> - int (length xs) \<le> k then Inr (xs ! nat (int (length xs) + k))
      else Inl IndexError)"

text \<open>What \<open>run_detector_and_visualize\<close> puts on the plot: a patch per
  ground-truth box, and a patch and a text (label and score) per detection
  drawn.\<close>

datatype artist = GroundTruthPatch box | PredictedPatch box | TextLabel string real

text \<open>
  The loop \<open>for i, score in enumerate(result['detection_scores'][0])\<close> of
  \<open>run_detector_and_visualize\<close>.  The variable \<open>label\<close> is assigned only
  under \<open>class_id < len(class_names)\<close>; the f-string of \<open>plt.text\<close> reads it
  in every iteration that passes the score test, after the patch is added.
\<close>

fun predicted_loop ::
  "string list \<Rightarrow> box list \<Rightarrow> int list \<Rightarrow> (nat \<times> real) list \<Rightarrow> string option \<Rightarrow> artist list
     \<Rightarrow> error + artist list" where
  "predicted_loop class_names boxes classes [] label axes = Inr axes"
| "predicted_loop class_names boxes classes ((i, score) # rest) label axes =
     (if score > 0.5 then
        if \<not> i < length boxes then Inl IndexError
        else if \<not> i < length classes then Inl IndexError
        else
          let class_id = classes ! i in
          case (if class_id < int (length class_names)
                then (case getitem class_names class_id of
                        Inl e \<Rightarrow> Inl e | Inr name \<Rightarrow> Inr (Some name))
                else Inr label) of
            Inl e \<Rightarrow> Inl e
          | Inr label' \<Rightarrow>
              (case label' of
                 None \<Rightarrow> Inl UnboundLocalError
               | Some text \<Rightarrow>
                   predicted_loop class_names boxes classes rest label'
                     (axes @ [PredictedPatch (boxes ! i), TextLabel text score]))
      else predicted_loop class_names boxes classes rest label axes)"

definition run_detector_and_visualize ::
  "string list \<Rightarrow> ('img \<Rightarrow> detections) \<Rightarrow> 'img example \<Rightarrow> error + artist list" where
  "run_detector_and_visualize class_names detector ex =
     (let ground_truth_boxes = objects_bbox ex;
          result = detector (ex_image ex)
      in predicted_loop class_names (detection_boxes result) (detection_classes result)
           (enumerate 0 (detection_scores result)) None
           (map GroundTruthPatch ground_truth_boxes))"

text \<open>
  The printing loop of \<open>process_uploaded_image\<close>, from the detections on:
  the notebook defines neither \<open>run_detector\<close> nor
  \<open>plot_detections_with_heatmap\<close>, so the detections are a parameter.  Each
  printed line is a label and a score.
\<close>

fun print_detected ::
  "string list \<Rightarrow> int list \<Rightarrow> (nat \<times> real) list \<Rightarrow> (string \<times> real) list
     \<Rightarrow> error + (string \<times> real) list" where
  "print_detected class_names classes [] out = Inr out"
| "print_detected class_names classes ((i, score) # rest) out =
     (if score > 0.5 then
        if \<not> i < length classes then Inl IndexError
        else
          let class_id = classes ! i in
          case (if class_id < int (length class_names) then getitem class_names class_id
                else Inr ''UNKNOWN'') of
            Inl e \<Rightarrow> Inl e
          | Inr label \<Rightarrow> print_detected class_names classes rest (out @ [(label, score)])
      else print_detected class_names classes rest out)"

section \<open>Concrete inputs\<close>

text \<open>Images are numbered; the detector below returns, for image \<open>n\<close>, \<open>n\<close>
  copies of one detection: the unit square with class 7 and score 0.9.\<close>

definition unit_square :: box where
  "unit_square = (0, 0, 1, 1)"

definition copies_detector :: "nat \<Rightarrow> detections" where
  "copies_detector n =
     \<lparr>detection_boxes = replicate n unit_square,
      detection_scores = replicate n (9 / 10),
      detection_classes = replicate n 7\<rparr>"

text \<open>An image with one ground-truth box, the unit square labelled 7, on which
  the detector fires \<open>n\<close> times.\<close>

definition square_image :: "nat \<Rightarrow> nat example" where
  "square_image n = \<lparr>ex_image = n, objects_bbox = [unit_square], objects_label = [7]\<rparr>"

text \<open>The twenty class names of the dataset, and a detector whose class ids
  are those of a larger label set.\<close>

definition voc_class_names :: "string list" where
  "voc_class_names =
     [''aeroplane'', ''bicycle'', ''bird'', ''boat'', ''bottle'', ''bus'', ''car'', ''cat'',
      ''chair'', ''cow'', ''diningtable'', ''dog'', ''horse'', ''motorbike'', ''person'',
      ''pottedplant'', ''sheep'', ''sofa'', ''train'', ''tvmonitor'']"

definition wide_detector :: "nat \<Rightarrow> detections" where
  "wide_detector n =
     (if n = 0
      then \<lparr>detection_boxes = [unit_square], detection_scores = [9 / 10],
            detection_classes = [44]\<rparr>
      else \<lparr>detection_boxes = [unit_square, unit_square], detection_scores = [9 / 10, 4 / 5],
            detection_classes = [11, 44]\<rparr>)"

text \<open>A box that is not symmetric under the exchange of its axes, and a
  detector that returns exactly that box, with class 7 and score 0.9.\<close>

definition offset_box :: box where
  "offset_box = (0, 2, 1, 3)"

definition offset_detector :: "nat \<Rightarrow> detections" where
  "offset_detector n =
     \<lparr>detection_boxes = [offset_box], detection_scores = [9 / 10],
      detection_classes = [7]\<rparr>"

text \<open>A detector whose one detection is away from the unit square.\<close>

definition far_detector :: "nat \<Rightarrow> detections" where
  "far_detector n =
     \<lparr>detection_boxes = [(2, 2, 3, 3)], detection_scores = [9 / 10],
      detection_classes = [7]\<rparr>"

text \<open>Float32 numbers near the ends of the exponent range.\<close>

definition big :: real where
  "big = 2 ^ 100"

definition small :: real where
  "small = 1 / 2 ^ 100"

definition edge :: real where
  "edge = 2 ^ 127"

definition long_side :: real where
  "long_side = 2 ^ 64"

definition short_side :: real where
  "short_side = 2 ^ 63"

section \<open>Properties of the rounding\<close>

lemma ilog2_bounds:
  assumes "0 < a"
  shows "2 powi ilog2 a \<le> a" and "a < 2 powi (ilog2 a + 1)"
proof -
  have "2 powi ilog2 a \<le> a \<and> a < 2 powi (ilog2 a + 1)"
  proof (cases "1 \<le> a")
    case True
    define n where "n = nat \<lfloor>a\<rfloor>"
    define k where "k = floorlog 2 n"
    from True have n1: "1 \<le> n" by (simp add: n_def le_nat_iff)
    then have n0: "0 < n" by simp
    from floorlog_bounds [OF n0, of 2] have b: "2 ^ (k - 1) \<le> n" "n < 2 ^ k"
      by (simp_all add: k_def)
    have "k \<noteq> 0" using n0 by (simp add: k_def floorlog_eq_zero_iff)
    then have k1: "1 \<le> k" by simp
    have na: "real n \<le> a" using True by (simp add: n_def)
    have an: "a < real n + 1" using True by (simp add: n_def)
    have il: "ilog2 a = int k - 1" using True by (simp add: ilog2_def n_def k_def)
    have p1: "(2::real) powi (int k - 1) = 2 ^ (k - 1)"
      using k1 by (metis of_nat_1 of_nat_diff power_int_of_nat)
    have p2: "(2::real) powi (int k - 1 + 1) = 2 ^ k" by simp
    have "(2::real) ^ (k - 1) \<le> real n" using b(1) by (metis of_nat_le_iff of_nat_numeral of_nat_power)
    with na have l: "(2::real) ^ (k - 1) \<le> a" by linarith
    have "n + 1 \<le> 2 ^ k" using b(2) by simp
    then have "real (n + 1) \<le> 2 ^ k" by (metis of_nat_le_iff of_nat_numeral of_nat_power)
    then have "real n + 1 \<le> 2 ^ k" by (simp only: of_nat_add of_nat_1)
    with an have u: "a < 2 ^ k" by linarith
    show ?thesis unfolding il p1 p2 using l u by (rule conjI)
  next
    case False
    define c where "c = nat (\<lceil>1 / a\<rceil> - 1)"
    define k where "k = floorlog 2 c"
    from False assms have inv: "1 < 1 / a" by simp
    then have ce: "2 \<le> \<lceil>1 / a\<rceil>" by linarith
    then have c0: "0 < c" unfolding c_def by linarith
    from floorlog_bounds [OF c0, of 2] have b: "2 ^ (k - 1) \<le> c" "c < 2 ^ k"
      by (simp_all add: k_def)
    have "k \<noteq> 0" using c0 by (simp add: k_def floorlog_eq_zero_iff)
    then have k1: "1 \<le> k" by simp
    have il: "ilog2 a = - int k" using False by (simp only: ilog2_def c_def k_def if_False)
    have z: "0 \<le> \<lceil>1 / a\<rceil> - 1" using ce by linarith
    have cc: "int c = \<lceil>1 / a\<rceil> - 1" unfolding c_def by (rule nat_0_le [OF z])
    have "c + 1 \<le> 2 ^ k" using b(2) by simp
    then have "int (c + 1) \<le> 2 ^ k" by (metis of_nat_le_iff of_nat_numeral of_nat_power)
    then have "\<lceil>1 / a\<rceil> \<le> 2 ^ k" using cc by simp
    then have "1 / a \<le> 2 ^ k" by (simp add: ceiling_le_iff)
    then have "1 \<le> 2 ^ k * a" using assms by (simp add: field_simps)
    then have l: "1 / 2 ^ k \<le> a" by (simp add: field_simps)
    have "int (2 ^ (k - 1)) \<le> int c" using b(1) by simp
    then have "2 ^ (k - 1) \<le> \<lceil>1 / a\<rceil> - 1" using cc by simp
    then have "(2::real) ^ (k - 1) \<le> of_int (\<lceil>1 / a\<rceil> - 1)"
      by (metis of_int_le_iff of_int_numeral of_int_power)
    moreover have "of_int (\<lceil>1 / a\<rceil> - 1) < 1 / a" by linarith
    ultimately have "(2::real) ^ (k - 1) < 1 / a" by linarith
    then have "2 ^ (k - 1) * a < 1" using assms by (simp add: field_simps)
    then have u: "a < 1 / 2 ^ (k - 1)" by (simp add: field_simps)
    have p1: "(2::real) powi (- int k) = 1 / 2 ^ k"
      by (simp add: power_int_minus field_simps)
    have "- int k + 1 = - int (k - 1)" using k1 by simp
    then have p2: "(2::real) powi (- int k + 1) = 1 / 2 ^ (k - 1)"
      by (simp only: power_int_minus power_int_of_nat inverse_eq_divide)
    show ?thesis unfolding il p1 p2 using l u by (rule conjI)
  qed
  then show "2 powi ilog2 a \<le> a" and "a < 2 powi (ilog2 a + 1)" by simp_all
qed

lemma powi2_less_iff: "(2::real) powi m < 2 powi n \<longleftrightarrow> m < n"
proof
  assume l: "(2::real) powi m < 2 powi n"
  show "m < n"
  proof (rule ccontr)
    assume "\<not> m < n"
    then have "n \<le> m" by simp
    then have "(2::real) powi n \<le> 2 powi m" by (rule power_int_increasing) simp
    with l show False by simp
  qed
next
  assume "m < n"
  then show "(2::real) powi m < 2 powi n" by (rule power_int_strict_increasing) simp
qed

lemma powi2_le_iff: "(2::real) powi m \<le> 2 powi n \<longleftrightarrow> m \<le> n"
  using powi2_less_iff [of n m] by (auto simp: not_less [symmetric])

lemma ilog2_unique:
  assumes "2 powi e \<le> a" and "a < 2 powi (e + 1)"
  shows "ilog2 a = e"
proof -
  have "0 < (2::real) powi e" by simp
  with assms(1) have a: "0 < a" by linarith
  from ilog2_bounds [OF a] assms
  have "(2::real) powi ilog2 a < 2 powi (e + 1)" "(2::real) powi e < 2 powi (ilog2 a + 1)"
    by linarith+
  then have "ilog2 a < e + 1" "e < ilog2 a + 1" by (simp_all only: powi2_less_iff)
  then show ?thesis by simp
qed

lemma ilog2_mono:
  assumes "0 < a" and "a \<le> b"
  shows "ilog2 a \<le> ilog2 b"
proof -
  from assms have b: "0 < b" by simp
  from ilog2_bounds(1) [OF assms(1)] ilog2_bounds(2) [OF b] assms(2)
  have "(2::real) powi ilog2 a < 2 powi (ilog2 b + 1)" by linarith
  then have "ilog2 a < ilog2 b + 1" by (simp only: powi2_less_iff)
  then show ?thesis by simp
qed

lemma rne_of_int: "rne (of_int n) = n"
  by (simp add: rne_def)

lemma rne_bounds: "\<lfloor>y\<rfloor> \<le> rne y" "rne y \<le> \<lfloor>y\<rfloor> + 1"
  by (simp_all add: rne_def Let_def)

lemma rne_mono:
  assumes "x \<le> y"
  shows "rne x \<le> rne y"
proof (cases "\<lfloor>x\<rfloor> = \<lfloor>y\<rfloor>")
  case True
  from assms have "x - of_int \<lfloor>x\<rfloor> \<le> y - of_int \<lfloor>x\<rfloor>" by simp
  then show ?thesis using True by (auto simp: rne_def Let_def)
next
  case False
  with assms have "\<lfloor>x\<rfloor> < \<lfloor>y\<rfloor>" using floor_mono [OF assms] by linarith
  with rne_bounds(2) [of x] rne_bounds(1) [of y] show ?thesis by linarith
qed

lemma rne_nonneg: "0 \<le> y \<Longrightarrow> 0 \<le> rne y"
  using rne_bounds(1) [of y] by (simp add: order_trans [of 0 "\<lfloor>y\<rfloor>"])

lemma rne_le: "y \<le> of_int n \<Longrightarrow> rne y \<le> n"
  using rne_mono [of y "of_int n"] by (simp add: rne_of_int)

lemma rne_ge: "of_int n \<le> y \<Longrightarrow> n \<le> rne y"
  using rne_mono [of "of_int n" y] by (simp add: rne_of_int)

lemma ulp_exp_lower: "- 149 \<le> ulp_exp a" "ilog2 a - 23 \<le> ulp_exp a"
  by (simp_all add: ulp_exp_def)

lemma ulp_exp_mono: "0 < a \<Longrightarrow> a \<le> b \<Longrightarrow> ulp_exp a \<le> ulp_exp b"
  using ilog2_mono [of a b] by (simp add: ulp_exp_def)

lemma round_mag_zero: "round_mag 0 = 0"
  by (simp add: round_mag_def)

lemma round_mag_pos_unfold:
  "0 < a \<Longrightarrow> round_mag a = of_int (rne (a / 2 powi ulp_exp a)) * 2 powi ulp_exp a"
  by (simp add: round_mag_def)

lemma round_mag_nonneg: "0 \<le> a \<Longrightarrow> 0 \<le> round_mag a"
proof (cases "a = 0")
  case True
  then show ?thesis by (simp add: round_mag_zero)
next
  case False
  assume "0 \<le> a"
  with False have a: "0 < a" by simp
  have "0 \<le> a / 2 powi ulp_exp a" using a by simp
  then have "0 \<le> rne (a / 2 powi ulp_exp a)" by (rule rne_nonneg)
  then show ?thesis using a by (simp add: round_mag_pos_unfold)
qed

lemma round_mag_upper:
  assumes "0 < a" and "a \<le> of_int n * 2 powi ulp_exp a"
  shows "round_mag a \<le> of_int n * 2 powi ulp_exp a"
proof -
  have p: "0 < (2::real) powi ulp_exp a" by simp
  from assms(2) p have "a / 2 powi ulp_exp a \<le> of_int n" by (simp add: field_simps)
  then have "rne (a / 2 powi ulp_exp a) \<le> n" by (rule rne_le)
  then have "(of_int (rne (a / 2 powi ulp_exp a)) :: real) \<le> of_int n" by simp
  then show ?thesis using p assms(1) by (simp add: round_mag_pos_unfold)
qed

lemma round_mag_lower:
  assumes "0 < a" and "of_int n * 2 powi ulp_exp a \<le> a"
  shows "of_int n * 2 powi ulp_exp a \<le> round_mag a"
proof -
  have p: "0 < (2::real) powi ulp_exp a" by simp
  from assms(2) p have "of_int n \<le> a / 2 powi ulp_exp a" by (simp add: field_simps)
  then have "n \<le> rne (a / 2 powi ulp_exp a)" by (rule rne_ge)
  then have "(of_int n :: real) \<le> of_int (rne (a / 2 powi ulp_exp a))" by simp
  then show ?thesis using p assms(1) by (simp add: round_mag_pos_unfold)
qed

lemma powi2_split: "m \<le> k \<Longrightarrow> (2::real) powi k = of_int (2 ^ nat (k - m)) * 2 powi m"
proof -
  assume "m \<le> k"
  then have "(2::real) powi (k - m) = 2 ^ nat (k - m)" by (simp add: power_int_def)
  moreover have "(2::real) powi k = 2 powi (k - m) * 2 powi m"
    by (simp flip: power_int_add)
  ultimately show ?thesis by simp
qed

lemma round_mag_mono:
  assumes "0 \<le> a" and "a \<le> b"
  shows "round_mag a \<le> round_mag b"
proof (cases "a = 0")
  case True
  with assms round_mag_nonneg [of b] show ?thesis by (simp add: round_mag_zero)
next
  case False
  with assms have a: "0 < a" and b: "0 < b" by simp_all
  from ulp_exp_mono [OF a assms(2)] have le: "ulp_exp a \<le> ulp_exp b" .
  show ?thesis
  proof (cases "ulp_exp a = ulp_exp b")
    case True
    have p: "0 < (2::real) powi ulp_exp b" by simp
    from assms(2) p have "a / 2 powi ulp_exp b \<le> b / 2 powi ulp_exp b"
      by (simp add: divide_right_mono)
    then have "rne (a / 2 powi ulp_exp b) \<le> rne (b / 2 powi ulp_exp b)" by (rule rne_mono)
    then have "(of_int (rne (a / 2 powi ulp_exp b)) :: real) \<le> of_int (rne (b / 2 powi ulp_exp b))"
      by simp
    then show ?thesis using p a b True by (simp add: round_mag_pos_unfold)
  next
    case False
    with le have lt: "ulp_exp a < ulp_exp b" by simp
    define K where "K = ilog2 b"
    from lt ulp_exp_lower(1) [of a] have "- 149 < ulp_exp b" by simp
    then have ub: "ulp_exp b = K - 23" by (simp add: ulp_exp_def K_def max_def split: if_splits)
    from lt ub ulp_exp_lower(2) [of a] have ia: "ilog2 a + 1 \<le> K" by simp
    from ilog2_bounds(2) [OF a] have "a < 2 powi (ilog2 a + 1)" .
    also have "\<dots> \<le> 2 powi K" using ia by (simp only: powi2_le_iff)
    finally have aK: "a \<le> 2 powi K" by simp
    from lt ub have ua: "ulp_exp a \<le> K" by simp
    from round_mag_upper [OF a, of "2 ^ nat (K - ulp_exp a)"] aK powi2_split [OF ua]
    have 1: "round_mag a \<le> 2 powi K" by simp
    from ilog2_bounds(1) [OF b] have Kb: "2 powi K \<le> b" by (simp add: K_def)
    have ubK: "ulp_exp b \<le> K" using ub by simp
    from round_mag_lower [OF b, of "2 ^ nat (K - ulp_exp b)"] Kb powi2_split [OF ubK]
    have 2: "2 powi K \<le> round_mag b" by simp
    from 1 2 show ?thesis by simp
  qed
qed

lemma round_mag_fix:
  assumes "0 < n" and "n < 2 ^ 24" and "- 149 \<le> e"
  shows "round_mag (of_int n * 2 powi e) = of_int n * 2 powi e"
proof -
  let ?a = "of_int n * (2::real) powi e"
  have a: "0 < ?a" using assms(1) by simp
  have "(of_int n :: real) < 2 ^ 24" using assms(2) by (metis of_int_less_iff of_int_numeral of_int_power)
  then have "?a < 2 ^ 24 * 2 powi e" by simp
  also have "\<dots> = 2 powi (24 + e)" by (simp add: power_int_add)
  finally have "?a < 2 powi (24 + e)" .
  with ilog2_bounds(1) [OF a] have "(2::real) powi ilog2 ?a < 2 powi (24 + e)" by linarith
  then have "ilog2 ?a < 24 + e" by (simp only: powi2_less_iff)
  with assms(3) have u: "ulp_exp ?a \<le> e" by (simp add: ulp_exp_def)
  define u where "u = ulp_exp ?a"
  from u have ue: "u \<le> e" by (simp add: u_def)
  have sp: "(2::real) powi e = of_int (2 ^ nat (e - u)) * 2 powi u" by (rule powi2_split [OF ue])
  have "?a / 2 powi u = of_int (n * 2 ^ nat (e - u))"
    by (subst sp) simp
  then have "rne (?a / 2 powi u) = n * 2 ^ nat (e - u)" by (simp only: rne_of_int)
  then have "round_mag ?a = of_int (n * 2 ^ nat (e - u)) * 2 powi u"
    using a by (simp add: round_mag_pos_unfold u_def)
  also have "\<dots> = ?a" by (subst sp) simp
  finally show ?thesis .
qed

lemma round_mag_form:
  assumes "0 \<le> a"
  shows "round_mag a = 0 \<or>
         (\<exists>n e. 0 < n \<and> n < 2 ^ 24 \<and> - 149 \<le> e \<and> round_mag a = of_int n * 2 powi e)"
proof (cases "a = 0")
  case True
  then show ?thesis by (simp add: round_mag_zero)
next
  case False
  with assms have a: "0 < a" by simp
  define u where "u = ulp_exp a"
  define N where "N = rne (a / 2 powi u)"
  have r: "round_mag a = of_int N * 2 powi u" using a by (simp add: round_mag_pos_unfold u_def N_def)
  have u149: "- 149 \<le> u" by (simp add: u_def ulp_exp_lower)
  have "ilog2 a + 1 \<le> u + 24" using ulp_exp_lower(2) [of a] by (simp add: u_def)
  then have "(2::real) powi (ilog2 a + 1) \<le> 2 powi (u + 24)" by (simp only: powi2_le_iff)
  with ilog2_bounds(2) [OF a] have "a < 2 powi (u + 24)" by linarith
  also have "\<dots> = 2 ^ 24 * 2 powi u" by (simp add: power_int_add)
  finally have "a / 2 powi u < 2 ^ 24" by (simp add: field_simps)
  then have "a / 2 powi u \<le> of_int (2 ^ 24)" by simp
  then have Nle: "N \<le> 2 ^ 24" unfolding N_def by (rule rne_le)
  have "0 \<le> a / 2 powi u" using a by simp
  then have N0: "0 \<le> N" unfolding N_def by (rule rne_nonneg)
  consider "N = 0" | "0 < N" "N < 2 ^ 24" | "N = 2 ^ 24" using Nle N0 by linarith
  then show ?thesis
  proof cases
    case 1
    then show ?thesis using r by simp
  next
    case 2
    with r u149 show ?thesis by blast
  next
    case 3
    have "(2::real) powi (u + 1) = 2 * 2 powi u" by (simp add: power_int_add)
    then have "round_mag a = of_int (2 ^ 23) * 2 powi (u + 1)" using r 3 by simp
    moreover have "(0::int) < 2 ^ 23" "(2::int) ^ 23 < 2 ^ 24" "- 149 \<le> u + 1"
      using u149 by simp_all
    ultimately show ?thesis by blast
  qed
qed

lemma round_mag_idem:
  assumes "0 \<le> a"
  shows "round_mag (round_mag a) = round_mag a"
  using round_mag_form [OF assms] round_mag_fix by (auto simp: round_mag_zero)

lemma round_mag_double:
  assumes "0 \<le> a"
  shows "round_mag (2 * round_mag a) = 2 * round_mag a"
proof -
  from round_mag_form [OF assms] show ?thesis
  proof
    assume "round_mag a = 0"
    then show ?thesis by (simp add: round_mag_zero)
  next
    assume "\<exists>n e. 0 < n \<and> n < 2 ^ 24 \<and> - 149 \<le> e \<and> round_mag a = of_int n * 2 powi e"
    then obtain n e where ne: "0 < n" "n < 2 ^ 24" "- 149 \<le> e"
      "round_mag a = of_int n * 2 powi e" by blast
    have "(2::real) powi (e + 1) = 2 * 2 powi e" by (simp add: power_int_add)
    then have d: "2 * round_mag a = of_int n * 2 powi (e + 1)" using ne(4) by simp
    from ne(3) have "- 149 \<le> e + 1" by simp
    from round_mag_fix [OF ne(1,2) this] d show ?thesis by simp
  qed
qed

lemma round_mag_of_int:
  assumes "0 \<le> n" and "n < 2 ^ 24"
  shows "round_mag (of_int n) = of_int n"
proof (cases "n = 0")
  case True
  then show ?thesis by (simp add: round_mag_zero)
next
  case False
  with assms have "0 < n" by simp
  from round_mag_fix [OF this assms(2), of 0] show ?thesis by simp
qed

lemma round_mag_one: "round_mag 1 = 1"
  using round_mag_of_int [of 1] by simp

section \<open>Properties of calculate_iou\<close>

lemma calculate_iou_unfold:
  "calculate_iou box1 box2 =
     (if f32_eq (union_area box1 box2) (Fin 0) then Fin 0
      else f32_div (intersection_area box1 box2) (union_area box1 box2))"
  by (cases box1, cases box2)
     (simp add: calculate_iou_def union_area_def box_area_def intersection_area_def Let_def)

lemma f32_round_nonneg:
  "0 \<le> x \<Longrightarrow> f32_round x = (if 2 ^ 128 \<le> round_mag x then PInf else Fin (round_mag x))"
  by (simp add: f32_round_def Let_def)

lemma f32_round_neg:
  "x < 0 \<Longrightarrow> f32_round x = (if 2 ^ 128 \<le> round_mag (- x) then NInf else Fin (- round_mag (- x)))"
  by (simp add: f32_round_def Let_def)

lemma f32_round_0: "f32_round 0 = Fin 0"
  by (simp add: f32_round_nonneg round_mag_zero)

lemma f32_round_of_int:
  assumes "- (2 ^ 24) < n" and "n < 2 ^ 24"
  shows "f32_round (of_int n) = Fin (of_int n)"
proof (cases "0 \<le> n")
  case True
  have "(of_int n :: real) < 2 ^ 24" using assms(2) by (metis of_int_less_iff of_int_numeral of_int_power)
  then have "\<not> (2::real) ^ 128 \<le> of_int n" by simp
  then show ?thesis using True assms(2) by (simp add: f32_round_nonneg round_mag_of_int)
next
  case False
  then have n: "n < 0" by simp
  have m: "round_mag (of_int (- n)) = of_int (- n)"
    using n assms(1) by (intro round_mag_of_int) simp_all
  have "(of_int (- n) :: real) < 2 ^ 24"
    using assms(1) by (metis neg_less_iff_less add.inverse_inverse of_int_less_iff of_int_numeral of_int_power)
  then have "\<not> (2::real) ^ 128 \<le> of_int (- n)" by simp
  with m n show ?thesis by (simp add: f32_round_neg)
qed

lemma f32_round_numeral:
  "(numeral k :: int) < 2 ^ 24 \<Longrightarrow> f32_round (numeral k) = Fin (numeral k)"
  using f32_round_of_int [of "numeral k"] by simp

lemma f32_round_neg_numeral:
  "(numeral k :: int) < 2 ^ 24 \<Longrightarrow> f32_round (- numeral k) = Fin (- numeral k)"
  using f32_round_of_int [of "- numeral k"] by simp

lemma f32_round_1: "f32_round 1 = Fin 1"
  using f32_round_of_int [of 1] by simp

lemma f32_round_neg_1: "f32_round (- 1) = Fin (- 1)"
  using f32_round_of_int [of "- 1"] by simp

lemmas f32_eval =
  f32_round_0 f32_round_1 f32_round_neg_1 f32_round_numeral f32_round_neg_numeral
  f32_sub_def f32_gt_def py_max_def py_min_def

lemma py_max_Fin: "py_max (Fin a) (Fin b) = Fin (max a b)"
  by (simp add: py_max_def f32_gt_def max_def)

lemma py_min_Fin: "py_min (Fin a) (Fin b) = Fin (min a b)"
  by (simp add: py_min_def min_def)

lemma f32_sub_Fin: "f32_sub (Fin x) (Fin y) = f32_round (x - y)"
  by (simp add: f32_sub_def)

lemma box_area_unfold:
  "box_area (y0, x0, y1, x1) = f32_mul (f32_round (y1 - y0)) (f32_round (x1 - x0))"
  by (simp add: box_area_def f32_sub_Fin)

lemma intersection_area_unfold:
  "intersection_area (y0, x0, y1, x1) (y0', x0', y1', x1') =
     f32_mul (py_max (Fin 0) (f32_round (min y1 y1' - max y0 y0')))
             (py_max (Fin 0) (f32_round (min x1 x1' - max x0 x0')))"
  by (simp add: intersection_area_def f32_sub_Fin py_max_Fin py_min_Fin)

lemma f32_round_cases:
  assumes "0 \<le> D"
  shows "(f32_round D = PInf \<and> 2 ^ 128 \<le> round_mag D) \<or>
         (f32_round D = Fin (round_mag D) \<and> \<not> 2 ^ 128 \<le> round_mag D)"
  using assms by (simp add: f32_round_nonneg)

lemma clip_cases:
  "py_max (Fin 0) (f32_round d) = (if d \<le> 0 then Fin 0 else f32_round d)"
proof (cases "d \<le> 0")
  case True
  show ?thesis
  proof (cases "d = 0")
    case True
    then show ?thesis by (simp add: f32_round_0 py_max_def f32_gt_def)
  next
    case False
    with True have d: "d < 0" by simp
    have "0 \<le> round_mag (- d)" using d by (intro round_mag_nonneg) simp
    then show ?thesis using d by (simp add: f32_round_neg py_max_def f32_gt_def)
  qed
next
  case False
  then have d: "0 < d" by simp
  have m: "0 \<le> round_mag d" using d by (intro round_mag_nonneg) simp
  show ?thesis
  proof (cases "round_mag d = 0")
    case True
    then show ?thesis using d by (simp add: f32_round_nonneg py_max_def f32_gt_def)
  next
    case False
    with m have "0 < round_mag d" by simp
    then show ?thesis using d by (simp add: f32_round_nonneg py_max_def f32_gt_def)
  qed
qed

lemma clip_le:
  assumes "0 \<le> D" and "d \<le> D" and "\<not> 2 ^ 128 \<le> round_mag D"
  shows "\<exists>c. py_max (Fin 0) (f32_round d) = Fin c \<and> 0 \<le> c \<and> c \<le> round_mag D"
proof (cases "d \<le> 0")
  case True
  then show ?thesis using round_mag_nonneg [OF assms(1)] by (simp add: clip_cases)
next
  case False
  then have d: "0 \<le> d" by simp
  from round_mag_mono [OF d assms(2)] have le: "round_mag d \<le> round_mag D" .
  with assms(3) have "\<not> 2 ^ 128 \<le> round_mag d" by simp
  then have "f32_round d = Fin (round_mag d)" using d by (simp add: f32_round_nonneg)
  moreover have "py_max (Fin 0) (f32_round d) = f32_round d" using False by (simp add: clip_cases)
  ultimately have "py_max (Fin 0) (f32_round d) = Fin (round_mag d)" by simp
  then show ?thesis using le round_mag_nonneg [OF d] by simp
qed

lemma clip_range:
  "py_max (Fin 0) (f32_round d) = PInf \<or>
   (\<exists>c. py_max (Fin 0) (f32_round d) = Fin c \<and> 0 \<le> c)"
proof (cases "d \<le> 0")
  case True
  then show ?thesis by (simp add: clip_cases)
next
  case False
  then have d: "0 \<le> d" by simp
  from f32_round_cases [OF d] round_mag_nonneg [OF d] False show ?thesis
    by (auto simp: clip_cases)
qed

lemma area_finite_dims:
  assumes "0 \<le> dh" and "0 \<le> dw" and "f32_mul (f32_round dh) (f32_round dw) = Fin a"
  shows "\<not> 2 ^ 128 \<le> round_mag dh" and "\<not> 2 ^ 128 \<le> round_mag dw"
    and "a = round_mag (round_mag dh * round_mag dw)" and "\<not> 2 ^ 128 \<le> a"
proof -
  have hn: "0 \<le> round_mag dh" and wn: "0 \<le> round_mag dw"
    using assms(1,2) by (simp_all add: round_mag_nonneg)
  then have pn: "0 \<le> round_mag dh * round_mag dw" by simp
  have "\<not> 2 ^ 128 \<le> round_mag dh \<and> \<not> 2 ^ 128 \<le> round_mag dw \<and>
        a = round_mag (round_mag dh * round_mag dw) \<and> \<not> 2 ^ 128 \<le> a"
    using assms(3) f32_round_cases [OF assms(1)] f32_round_cases [OF assms(2)]
      f32_round_cases [OF pn]
    by (auto split: if_splits)
  then show "\<not> 2 ^ 128 \<le> round_mag dh" and "\<not> 2 ^ 128 \<le> round_mag dw"
    and "a = round_mag (round_mag dh * round_mag dw)" and "\<not> 2 ^ 128 \<le> a"
    by simp_all
qed

lemma clipped_product_le:
  assumes "0 \<le> dh" and "0 \<le> dw" and "ey \<le> dh" and "ex \<le> dw"
    and "f32_mul (f32_round dh) (f32_round dw) = Fin a"
  shows "\<exists>i. f32_mul (py_max (Fin 0) (f32_round ey)) (py_max (Fin 0) (f32_round ex)) = Fin i \<and>
             0 \<le> i \<and> i \<le> a \<and> round_mag i = i"
proof -
  note fd = area_finite_dims [OF assms(1,2,5)]
  from clip_le [OF assms(1,3) fd(1)] obtain ch where
    ch: "py_max (Fin 0) (f32_round ey) = Fin ch" "0 \<le> ch" "ch \<le> round_mag dh" by blast
  from clip_le [OF assms(2,4) fd(2)] obtain cw where
    cw: "py_max (Fin 0) (f32_round ex) = Fin cw" "0 \<le> cw" "cw \<le> round_mag dw" by blast
  have p0: "0 \<le> ch * cw" using ch(2) cw(2) by simp
  have ple: "ch * cw \<le> round_mag dh * round_mag dw"
    using ch(2,3) cw(2,3) by (intro mult_mono) simp_all
  from round_mag_mono [OF p0 ple] fd(3) have le: "round_mag (ch * cw) \<le> a" by simp
  with fd(4) have "\<not> 2 ^ 128 \<le> round_mag (ch * cw)" by simp
  then have "f32_round (ch * cw) = Fin (round_mag (ch * cw))"
    using p0 by (simp add: f32_round_nonneg)
  then show ?thesis
    using ch(1) cw(1) le round_mag_nonneg [OF p0] round_mag_idem [OF p0] by simp
qed

lemma min_max_le1: "min (y1::real) y1' - max y0 y0' \<le> y1 - y0"
  by simp

lemma min_max_le2: "min (y1::real) y1' - max y0 y0' \<le> y1' - y0'"
  by simp

lemma intersection_le_area1:
  assumes "valid_box box1" and "box_area box1 = Fin a"
  shows "\<exists>i. intersection_area box1 box2 = Fin i \<and> 0 \<le> i \<and> i \<le> a \<and> round_mag i = i"
proof -
  obtain y0 x0 y1 x1 where b1: "box1 = (y0, x0, y1, x1)" by (cases box1) auto
  obtain y0' x0' y1' x1' where b2: "box2 = (y0', x0', y1', x1')" by (cases box2) auto
  from assms(1) b1 have v: "0 \<le> y1 - y0" "0 \<le> x1 - x0" by (simp_all add: valid_box_def)
  from assms(2) b1 have a: "f32_mul (f32_round (y1 - y0)) (f32_round (x1 - x0)) = Fin a"
    by (simp add: box_area_unfold)
  from clipped_product_le [OF v min_max_le1 min_max_le1 a]
  show ?thesis by (simp add: b1 b2 intersection_area_unfold)
qed

lemma intersection_le_area2:
  assumes "valid_box box2" and "box_area box2 = Fin a"
  shows "\<exists>i. intersection_area box1 box2 = Fin i \<and> 0 \<le> i \<and> i \<le> a \<and> round_mag i = i"
proof -
  obtain y0 x0 y1 x1 where b1: "box1 = (y0, x0, y1, x1)" by (cases box1) auto
  obtain y0' x0' y1' x1' where b2: "box2 = (y0', x0', y1', x1')" by (cases box2) auto
  from assms(1) b2 have v: "0 \<le> y1' - y0'" "0 \<le> x1' - x0'" by (simp_all add: valid_box_def)
  from assms(2) b2 have a: "f32_mul (f32_round (y1' - y0')) (f32_round (x1' - x0')) = Fin a"
    by (simp add: box_area_unfold)
  from clipped_product_le [OF v min_max_le2 min_max_le2 a]
  show ?thesis by (simp add: b1 b2 intersection_area_unfold)
qed

lemma box_area_cases:
  assumes "valid_box b"
  shows "box_area b = NaN \<or> box_area b = PInf \<or>
         (\<exists>a. box_area b = Fin a \<and> 0 \<le> a \<and> round_mag a = a \<and> \<not> 2 ^ 128 \<le> a)"
proof -
  obtain y0 x0 y1 x1 where b: "b = (y0, x0, y1, x1)" by (cases b) auto
  from assms b have v: "0 \<le> y1 - y0" "0 \<le> x1 - x0" by (simp_all add: valid_box_def)
  have hn: "0 \<le> round_mag (y1 - y0)" and wn: "0 \<le> round_mag (x1 - x0)"
    using v by (simp_all add: round_mag_nonneg)
  then have pn: "0 \<le> round_mag (y1 - y0) * round_mag (x1 - x0)" by simp
  from f32_round_cases [OF v(1)] f32_round_cases [OF v(2)] f32_round_cases [OF pn]
       round_mag_nonneg [OF pn] round_mag_idem [OF pn] hn wn
  show ?thesis by (auto simp: b box_area_unfold)
qed

lemma intersection_area_cases:
  "intersection_area box1 box2 = NaN \<or> intersection_area box1 box2 = PInf \<or>
   (\<exists>i. intersection_area box1 box2 = Fin i \<and> 0 \<le> i)"
proof -
  obtain y0 x0 y1 x1 where b1: "box1 = (y0, x0, y1, x1)" by (cases box1) auto
  obtain y0' x0' y1' x1' where b2: "box2 = (y0', x0', y1', x1')" by (cases box2) auto
  let ?ch = "py_max (Fin 0) (f32_round (min y1 y1' - max y0 y0'))"
  let ?cw = "py_max (Fin 0) (f32_round (min x1 x1' - max x0 x0'))"
  have "f32_mul ?ch ?cw = NaN \<or> f32_mul ?ch ?cw = PInf \<or> (\<exists>i. f32_mul ?ch ?cw = Fin i \<and> 0 \<le> i)"
  proof -
    from clip_range [of "min y1 y1' - max y0 y0'"] clip_range [of "min x1 x1' - max x0 x0'"]
    consider "?ch = PInf" "?cw = PInf"
      | c where "?ch = PInf" "?cw = Fin c" "0 \<le> c"
      | c where "?ch = Fin c" "0 \<le> c" "?cw = PInf"
      | c d where "?ch = Fin c" "0 \<le> c" "?cw = Fin d" "0 \<le> d"
      by blast
    then show ?thesis
    proof cases
      case 1
      then show ?thesis by simp
    next
      case 2
      then show ?thesis by simp
    next
      case 3
      then show ?thesis by simp
    next
      case 4
      then have p: "0 \<le> c * d" by simp
      from f32_round_cases [OF p] round_mag_nonneg [OF p] 4 show ?thesis by auto
    qed
  qed
  then show ?thesis by (simp add: b1 b2 intersection_area_unfold)
qed

lemma f32_add_NaN_right: "f32_add a NaN = NaN"
  by (cases a) simp_all

lemma f32_div_NaN_right: "f32_div a NaN = NaN"
  by (cases a) simp_all

lemma f32_round_fixed:
  "0 \<le> m \<Longrightarrow> round_mag m = m \<Longrightarrow> \<not> 2 ^ 128 \<le> m \<Longrightarrow> f32_round m = Fin m"
  by (simp add: f32_round_nonneg)

lemma f32_round_finiteD:
  "0 \<le> x \<Longrightarrow> is_finite (f32_round x) \<Longrightarrow> \<not> 2 ^ 128 \<le> round_mag x"
  by (auto simp: f32_round_nonneg split: if_splits)

lemma union_area_finite:
  assumes "box_area box1 = Fin a1" and "box_area box2 = Fin a2"
    and "intersection_area box1 box2 = Fin i" and "f32_round (a1 + a2) = Fin sm"
  shows "union_area box1 box2 = f32_round (sm - i)"
proof -
  have "union_area box1 box2 = f32_sub (f32_add (Fin a1) (Fin a2)) (Fin i)"
    by (simp only: union_area_def assms(1,2,3))
  also have "\<dots> = f32_sub (f32_round (a1 + a2)) (Fin i)" by (simp only: f32_add.simps)
  also have "\<dots> = f32_round (sm - i)" by (simp only: assms(4) f32_sub_Fin)
  finally show ?thesis .
qed

lemma union_area_overflow:
  assumes "f32_add (box_area box1) (box_area box2) = PInf"
    and "intersection_area box1 box2 = Fin i"
  shows "union_area box1 box2 = PInf"
  by (simp add: union_area_def assms f32_sub_def)

lemma iou_finite_areas:
  assumes v1: "valid_box box1" and v2: "valid_box box2"
    and a1: "box_area box1 = Fin a1" and a2: "box_area box2 = Fin a2"
  shows "\<exists>iou. calculate_iou box1 box2 = Fin iou \<and> 0 \<le> iou \<and> iou \<le> 1"
proof -
  from box_area_cases [OF v1] a1 have A1: "0 \<le> a1" "round_mag a1 = a1" "\<not> 2 ^ 128 \<le> a1" by auto
  from box_area_cases [OF v2] a2 have A2: "0 \<le> a2" "round_mag a2 = a2" "\<not> 2 ^ 128 \<le> a2" by auto
  from intersection_le_area1 [OF v1 a1, of box2] obtain i where
    i: "intersection_area box1 box2 = Fin i" "0 \<le> i" "i \<le> a1" "round_mag i = i" by blast
  from intersection_le_area2 [OF v2 a2, of box1] i(1) have i2: "i \<le> a2" by auto
  have s0: "0 \<le> a1 + a2" using A1(1) A2(1) by simp
  show ?thesis
  proof (cases "2 ^ 128 \<le> round_mag (a1 + a2)")
    case True
    then have "f32_add (box_area box1) (box_area box2) = PInf"
      using s0 by (simp add: a1 a2 f32_round_nonneg)
    from union_area_overflow [OF this i(1)]
    show ?thesis by (simp add: calculate_iou_unfold i(1))
  next
    case False
    define sm where "sm = round_mag (a1 + a2)"
    have s: "f32_round (a1 + a2) = Fin sm"
      using s0 False by (simp add: f32_round_nonneg sm_def)
    have "0 \<le> 2 * i" "2 * i \<le> a1 + a2" using i(2,3) i2 by simp_all
    from round_mag_mono [OF this] have "round_mag (2 * i) \<le> sm" by (simp add: sm_def)
    moreover from round_mag_double [OF i(2)] i(4) have "round_mag (2 * i) = 2 * i" by simp
    ultimately have sm2: "2 * i \<le> sm" by simp
    have smfix: "round_mag sm = sm" unfolding sm_def by (rule round_mag_idem [OF s0])
    have d0: "0 \<le> sm - i" using sm2 i(2) by simp
    have "sm - i \<le> sm" using i(2) by simp
    from round_mag_mono [OF d0 this] smfix have ule: "round_mag (sm - i) \<le> sm" by simp
    with False have nf: "\<not> 2 ^ 128 \<le> round_mag (sm - i)" by (simp add: sm_def)
    define um where "um = round_mag (sm - i)"
    have "f32_round (sm - i) = Fin um"
      using nf by (simp only: f32_round_nonneg [OF d0] um_def if_False)
    with union_area_finite [OF a1 a2 i(1) s] have u: "union_area box1 box2 = Fin um" by simp
    have "i \<le> sm - i" using sm2 by simp
    from round_mag_mono [OF i(2) this] i(4) have ium: "i \<le> um" by (simp add: um_def)
    show ?thesis
    proof (cases "um = 0")
      case True
      then show ?thesis by (simp add: calculate_iou_unfold u)
    next
      case False
      with ium i(2) have up: "0 < um" by simp
      have q0: "0 \<le> i / um" using i(2) up by simp
      have q1: "i / um \<le> 1" using ium up by simp
      from round_mag_mono [OF q0 q1] have r1: "round_mag (i / um) \<le> 1" by (simp add: round_mag_one)
      then have "\<not> 2 ^ 128 \<le> round_mag (i / um)" by simp
      then have "f32_round (i / um) = Fin (round_mag (i / um))"
        using q0 by (simp add: f32_round_nonneg)
      then have "calculate_iou box1 box2 = Fin (round_mag (i / um))"
        using False by (simp add: calculate_iou_unfold u i(1))
      then show ?thesis using r1 round_mag_nonneg [OF q0] by simp
    qed
  qed
qed

lemma iou_nan_area1:
  assumes "box_area box1 = NaN"
  shows "calculate_iou box1 box2 = NaN"
proof -
  have "union_area box1 box2 = NaN" by (simp add: union_area_def assms f32_sub_def)
  then show ?thesis by (simp add: calculate_iou_unfold f32_div_NaN_right)
qed

lemma iou_nan_area2:
  assumes "box_area box2 = NaN"
  shows "calculate_iou box1 box2 = NaN"
proof -
  have "union_area box1 box2 = NaN"
    by (simp add: union_area_def assms f32_sub_def f32_add_NaN_right)
  then show ?thesis by (simp add: calculate_iou_unfold f32_div_NaN_right)
qed

lemma iou_infinite_sum:
  assumes "f32_add (box_area box1) (box_area box2) = PInf"
  shows "calculate_iou box1 box2 = NaN \<or> calculate_iou box1 box2 = Fin 0"
proof -
  from intersection_area_cases [of box1 box2]
  consider "intersection_area box1 box2 = NaN" | "intersection_area box1 box2 = PInf"
    | i where "intersection_area box1 box2 = Fin i" by blast
  then show ?thesis
  proof cases
    case 1
    then have "union_area box1 box2 = NaN" by (simp add: union_area_def assms f32_sub_def)
    then show ?thesis by (simp add: calculate_iou_unfold f32_div_NaN_right)
  next
    case 2
    then have "union_area box1 box2 = NaN" by (simp add: union_area_def assms f32_sub_def)
    then show ?thesis by (simp add: calculate_iou_unfold f32_div_NaN_right)
  next
    case 3
    from union_area_overflow [OF assms 3]
    show ?thesis by (simp add: calculate_iou_unfold 3)
  qed
qed

lemma iou_nan_or_bounded:
  assumes v1: "valid_box box1" and v2: "valid_box box2"
  shows "calculate_iou box1 box2 = NaN \<or>
         (\<exists>iou. calculate_iou box1 box2 = Fin iou \<and> 0 \<le> iou \<and> iou \<le> 1)"
proof -
  from box_area_cases [OF v1] box_area_cases [OF v2]
  consider "box_area box1 = NaN" | "box_area box2 = NaN"
    | "f32_add (box_area box1) (box_area box2) = PInf"
    | a1 a2 where "box_area box1 = Fin a1" "box_area box2 = Fin a2"
    by (cases "box_area box1"; cases "box_area box2") auto
  then show ?thesis
  proof cases
    case 1
    then show ?thesis by (simp add: iou_nan_area1)
  next
    case 2
    then show ?thesis by (simp add: iou_nan_area2)
  next
    case 3
    from iou_infinite_sum [OF this] show ?thesis by auto
  next
    case 4
    from iou_finite_areas [OF v1 v2 4] show ?thesis by simp
  qed
qed

lemma iou_zero_intersection:
  assumes v1: "valid_box box1" and v2: "valid_box box2"
    and n1: "box_area box1 \<noteq> NaN" and n2: "box_area box2 \<noteq> NaN"
    and i: "intersection_area box1 box2 = Fin 0"
  shows "calculate_iou box1 box2 = Fin 0"
proof -
  from box_area_cases [OF v1] n1 box_area_cases [OF v2] n2
  consider "f32_add (box_area box1) (box_area box2) = PInf"
    | a1 a2 where "box_area box1 = Fin a1" "0 \<le> a1" "box_area box2 = Fin a2" "0 \<le> a2"
    by (cases "box_area box1"; cases "box_area box2") auto
  then show ?thesis
  proof cases
    case 1
    from union_area_overflow [OF this i]
    show ?thesis by (simp add: calculate_iou_unfold i)
  next
    case 2
    have s0: "0 \<le> a1 + a2" using 2 by simp
    show ?thesis
    proof (cases "2 ^ 128 \<le> round_mag (a1 + a2)")
      case True
      then have "f32_add (box_area box1) (box_area box2) = PInf"
        using s0 by (simp add: 2 f32_round_nonneg)
      from union_area_overflow [OF this i]
      show ?thesis by (simp add: calculate_iou_unfold i)
    next
      case False
      define sm where "sm = round_mag (a1 + a2)"
      have s: "f32_round (a1 + a2) = Fin sm"
        using s0 False by (simp add: f32_round_nonneg sm_def)
      have sm0: "0 \<le> sm" unfolding sm_def by (rule round_mag_nonneg [OF s0])
      have smfix: "round_mag sm = sm" unfolding sm_def by (rule round_mag_idem [OF s0])
      have "\<not> 2 ^ 128 \<le> sm" using False by (simp add: sm_def)
      from f32_round_fixed [OF sm0 smfix this] have "f32_round sm = Fin sm" .
      with union_area_finite [OF 2(1) 2(3) i s] have u: "union_area box1 box2 = Fin sm" by simp
      show ?thesis by (simp add: calculate_iou_unfold u i f32_round_0)
    qed
  qed
qed

lemma zero_area_intersection1:
  assumes "valid_box box1" and "box_area box1 = Fin 0"
  shows "intersection_area box1 box2 = Fin 0"
  using intersection_le_area1 [OF assms, of box2] by auto

lemma zero_area_intersection2:
  assumes "valid_box box2" and "box_area box2 = Fin 0"
  shows "intersection_area box1 box2 = Fin 0"
  using intersection_le_area2 [OF assms, of box1] by auto

lemma degenerate_area:
  assumes "valid_box b" and "degenerate b" and "box_area b \<noteq> NaN"
  shows "box_area b = Fin 0"
proof -
  obtain y0 x0 y1 x1 where b: "b = (y0, x0, y1, x1)" by (cases b) auto
  from assms(1) b have v: "0 \<le> y1 - y0" "0 \<le> x1 - x0" by (simp_all add: valid_box_def)
  from assms(2) b have "y1 - y0 = 0 \<or> x1 - x0 = 0" by (auto simp: degenerate_def)
  then show ?thesis
  proof
    assume z: "y1 - y0 = 0"
    from f32_round_cases [OF v(2)] assms(3) show ?thesis
      by (auto simp: b box_area_unfold z f32_round_0)
  next
    assume z: "x1 - x0 = 0"
    from f32_round_cases [OF v(1)] assms(3) show ?thesis
      by (auto simp: b box_area_unfold z f32_round_0)
  qed
qed

lemma iou_self:
  assumes nd: "non_degenerate b" and a: "box_area b = Fin a" and pos: "0 < a"
    and fin: "is_finite (f32_add (Fin a) (Fin a))"
  shows "calculate_iou b b = Fin 1"
proof -
  obtain y0 x0 y1 x1 where b: "b = (y0, x0, y1, x1)" by (cases b) auto
  from nd b have d: "0 < y1 - y0" "0 < x1 - x0" by (simp_all add: non_degenerate_def)
  then have v: "valid_box b" by (simp add: b valid_box_def)
  from box_area_cases [OF v] a have A: "0 \<le> a" "round_mag a = a" "\<not> 2 ^ 128 \<le> a" by auto
  have i: "intersection_area b b = Fin a"
    using d a by (simp add: b intersection_area_unfold clip_cases box_area_unfold)
  have aa: "round_mag (a + a) = a + a"
    using round_mag_double [OF A(1)] A(2) by simp
  have s0: "0 \<le> a + a" using A(1) by simp
  have "f32_add (Fin a) (Fin a) = f32_round (a + a)" by (simp only: f32_add.simps)
  with fin have "is_finite (f32_round (a + a))" by simp
  from f32_round_finiteD [OF s0 this] have "\<not> 2 ^ 128 \<le> round_mag (a + a)" .
  then have s: "f32_round (a + a) = Fin (a + a)"
    using aa by (simp only: f32_round_nonneg [OF s0] if_False)
  from f32_round_fixed [OF A] have "f32_round a = Fin a" .
  with union_area_finite [OF a a i s] have u: "union_area b b = Fin a" by simp
  show ?thesis using pos by (simp add: calculate_iou_unfold u i f32_round_1)
qed

subsection \<open>Values at the ends of the exponent range\<close>

lemma round_mag_powi: "- 149 \<le> e \<Longrightarrow> round_mag (2 powi e) = 2 powi e"
  using round_mag_fix [of 1 e] by simp

lemma f32_round_powi_normal:
  assumes "- 149 \<le> e" and "e < 128"
  shows "f32_round (2 powi e) = Fin (2 powi e)"
proof -
  have "(2::real) powi e < 2 powi 128" using assms(2) by (simp only: powi2_less_iff)
  then have "\<not> (2::real) ^ 128 \<le> 2 powi e" by simp
  then show ?thesis using assms(1) by (simp add: f32_round_nonneg round_mag_powi)
qed

lemma f32_round_powi_over:
  assumes "128 \<le> e"
  shows "f32_round (2 powi e) = PInf"
proof -
  have "(2::real) powi 128 \<le> 2 powi e" using assms by (simp only: powi2_le_iff)
  then have "(2::real) ^ 128 \<le> 2 powi e" by simp
  moreover have "round_mag (2 powi e) = 2 powi e" using assms by (intro round_mag_powi) simp
  ultimately show ?thesis by (simp add: f32_round_nonneg)
qed

lemma f32_round_powi_under:
  assumes "e \<le> - 151"
  shows "f32_round (2 powi e) = Fin 0"
proof -
  let ?a = "(2::real) powi e"
  have a: "0 < ?a" by simp
  have "?a < 2 powi (e + 1)" by (simp only: powi2_less_iff)
  then have il: "ilog2 ?a = e" by (intro ilog2_unique) simp_all
  have u: "ulp_exp ?a = - 149" using assms by (simp add: ulp_exp_def il)
  have q: "?a / 2 powi (- 149) = 2 powi (e + 149)"
    by (simp add: power_int_diff [symmetric] del: power_int_numeral_neg_numeral power_int_minus)
  have "(2::real) powi (e + 149) \<le> 2 powi (- 2)" using assms by (simp only: powi2_le_iff)
  then have le: "(2::real) powi (e + 149) \<le> 1 / 4" by simp
  have pos: "0 < (2::real) powi (e + 149)" by simp
  from le pos have fl: "\<lfloor>(2::real) powi (e + 149)\<rfloor> = 0" by (intro floor_unique) simp_all
  have "rne (2 powi (e + 149)) = 0" using le by (simp add: rne_def Let_def fl)
  then have "round_mag ?a = 0" using a by (simp only: round_mag_pos_unfold u q)
  then show ?thesis by (simp add: f32_round_nonneg)
qed

lemma big_facts:
  "0 < big" "f32_round big = Fin big" "f32_round (big * big) = PInf"
proof -
  have b: "big = 2 powi 100" by (simp add: big_def)
  show "0 < big" by (simp add: big_def)
  show "f32_round big = Fin big" unfolding b by (rule f32_round_powi_normal) simp_all
  have bb: "big * big = 2 powi 200" by (simp add: big_def)
  show "f32_round (big * big) = PInf" unfolding bb by (rule f32_round_powi_over) simp
qed

lemma small_facts:
  "0 < small" "f32_round small = Fin small" "f32_round (small * small) = Fin 0"
proof -
  have s: "small = 2 powi (- 100)" by (simp add: small_def power_int_minus field_simps)
  show "0 < small" by (simp add: small_def)
  show "f32_round small = Fin small" unfolding s by (rule f32_round_powi_normal) simp_all
  have ss: "small * small = 2 powi (- 200)" by (simp add: small_def power_int_minus field_simps)
  show "f32_round (small * small) = Fin 0" unfolding ss by (rule f32_round_powi_under) simp
qed

lemma edge_facts:
  "0 < edge" "f32_round edge = Fin edge" "f32_round (edge + edge) = PInf"
proof -
  have e: "edge = 2 powi 127" by (simp add: edge_def)
  show "0 < edge" by (simp add: edge_def)
  show "f32_round edge = Fin edge" unfolding e by (rule f32_round_powi_normal) simp_all
  have ee: "edge + edge = 2 powi 128" by (simp add: edge_def)
  show "f32_round (edge + edge) = PInf" unfolding ee by (rule f32_round_powi_over) simp
qed

lemma side_facts:
  "0 < long_side" "0 < short_side"
  "f32_round long_side = Fin long_side" "f32_round short_side = Fin short_side"
  "f32_round (short_side * long_side) = Fin edge"
proof -
  have l: "long_side = 2 powi 64" and s: "short_side = 2 powi 63"
    by (simp_all add: long_side_def short_side_def)
  show "0 < long_side" "0 < short_side" by (simp_all add: long_side_def short_side_def)
  show "f32_round long_side = Fin long_side" unfolding l by (rule f32_round_powi_normal) simp_all
  show "f32_round short_side = Fin short_side" unfolding s by (rule f32_round_powi_normal) simp_all
  have "short_side * long_side = edge" by (simp add: long_side_def short_side_def edge_def)
  then show "f32_round (short_side * long_side) = Fin edge" by (simp add: edge_facts(2))
qed

section \<open>The claims about calculate_iou\<close>

text \<open>
  C5, as the code has it.  For every pair of valid boxes (ymin \<open>\<le>\<close> ymax and
  xmin \<open>\<le>\<close> xmax in each), \<open>calculate_iou\<close> returns either NaN or a number
  between 0 and 1 inclusive; and it returns a number between 0 and 1
  whenever the two box areas it computes are finite, that is, neither
  overflows.
\<close>

theorem calculate_iou_bounded:
  assumes "valid_box box1" and "valid_box box2"
  shows "(calculate_iou box1 box2 = NaN \<or>
          (\<exists>iou. calculate_iou box1 box2 = Fin iou \<and> 0 \<le> iou \<and> iou \<le> 1)) \<and>
         (is_finite (box_area box1) \<and> is_finite (box_area box2) \<longrightarrow>
          (\<exists>iou. calculate_iou box1 box2 = Fin iou \<and> 0 \<le> iou \<and> iou \<le> 1))"
proof (intro conjI impI)
  show "calculate_iou box1 box2 = NaN \<or>
        (\<exists>iou. calculate_iou box1 box2 = Fin iou \<and> 0 \<le> iou \<and> iou \<le> 1)"
    using assms by (rule iou_nan_or_bounded)
next
  assume "is_finite (box_area box1) \<and> is_finite (box_area box2)"
  then obtain a1 a2 where "box_area box1 = Fin a1" "box_area box2 = Fin a2"
    by (cases "box_area box1"; cases "box_area box2") simp_all
  with assms show "\<exists>iou. calculate_iou box1 box2 = Fin iou \<and> 0 \<le> iou \<and> iou \<le> 1"
    by (rule iou_finite_areas)
qed

theorem calculate_iou_bounded_witness:
  "valid_box (0, 0, 10, 10) \<and> valid_box (5, 5, 15, 15) \<and>
   is_finite (box_area (0, 0, 10, 10)) \<and> is_finite (box_area (5, 5, 15, 15)) \<and>
   (\<exists>iou. calculate_iou (0, 0, 10, 10) (5, 5, 15, 15) = Fin iou \<and> 0 \<le> iou \<and> iou \<le> 1)"
proof -
  have v1: "valid_box (0, 0, 10, 10)" by (simp add: valid_box_def)
  have v2: "valid_box (5, 5, 15, 15)" by (simp add: valid_box_def)
  have f: "is_finite (box_area (0, 0, 10, 10)) \<and> is_finite (box_area (5, 5, 15, 15))"
    by (simp add: box_area_def f32_eval)
  from calculate_iou_bounded [OF v1 v2] f
  have "\<exists>iou. calculate_iou (0, 0, 10, 10) (5, 5, 15, 15) = Fin iou \<and> 0 \<le> iou \<and> iou \<le> 1"
    by blast
  with v1 v2 f show ?thesis by blast
qed

text \<open>
  Where C5 fails as stated: a valid box with sides \<open>2^100\<close>, a float32
  number.  Its area overflows to infinity, the union is \<open>inf + inf - inf\<close>,
  which is NaN, the test \<open>union_area == 0\<close> is false, and the quotient
  returned is NaN, not a number between 0 and 1.
\<close>

theorem calculate_iou_bounded_counterexample:
  "valid_box (0, 0, big, big) \<and> f32_round big = Fin big \<and>
   calculate_iou (0, 0, big, big) (0, 0, big, big) = NaN \<and>
   \<not> (\<exists>iou. calculate_iou (0, 0, big, big) (0, 0, big, big) = Fin iou \<and> 0 \<le> iou \<and> iou \<le> 1)"
  using big_facts
  by (simp add: valid_box_def calculate_iou_def Let_def f32_eval)

text \<open>
  C6, as the code has it.  For every pair of valid boxes neither of whose
  computed areas is NaN, if at least one box is degenerate or has a computed
  area of zero, \<open>calculate_iou\<close> returns 0.  And whenever the union area
  compares equal to 0, the guarded branch returns 0 and nothing is divided.
\<close>

theorem calculate_iou_zero_area:
  "(valid_box box1 \<and> valid_box box2 \<and> box_area box1 \<noteq> NaN \<and> box_area box2 \<noteq> NaN \<and>
    (degenerate box1 \<or> degenerate box2 \<or> box_area box1 = Fin 0 \<or> box_area box2 = Fin 0)
      \<longrightarrow> calculate_iou box1 box2 = Fin 0) \<and>
   (f32_eq (union_area box1 box2) (Fin 0) \<longrightarrow> calculate_iou box1 box2 = Fin 0)"
proof (intro conjI impI)
  assume a: "valid_box box1 \<and> valid_box box2 \<and> box_area box1 \<noteq> NaN \<and> box_area box2 \<noteq> NaN \<and>
    (degenerate box1 \<or> degenerate box2 \<or> box_area box1 = Fin 0 \<or> box_area box2 = Fin 0)"
  then have v1: "valid_box box1" and v2: "valid_box box2"
    and n1: "box_area box1 \<noteq> NaN" and n2: "box_area box2 \<noteq> NaN" by simp_all
  from a degenerate_area [OF v1 _ n1] degenerate_area [OF v2 _ n2]
  have "box_area box1 = Fin 0 \<or> box_area box2 = Fin 0" by blast
  then have "intersection_area box1 box2 = Fin 0"
    using zero_area_intersection1 [OF v1] zero_area_intersection2 [OF v2] by blast
  with v1 v2 n1 n2 show "calculate_iou box1 box2 = Fin 0" by (rule iou_zero_intersection)
next
  assume "f32_eq (union_area box1 box2) (Fin 0)"
  then show "calculate_iou box1 box2 = Fin 0" by (simp add: calculate_iou_unfold)
qed

theorem calculate_iou_zero_area_witness:
  "valid_box (0, 0, 0, 4) \<and> valid_box (0, 0, 2, 2) \<and>
   box_area (0, 0, 0, 4) \<noteq> NaN \<and> box_area (0, 0, 2, 2) \<noteq> NaN \<and>
   degenerate (0, 0, 0, 4) \<and>
   calculate_iou (0, 0, 0, 4) (0, 0, 2, 2) = Fin 0 \<and>
   f32_eq (union_area (1, 1, 1, 1) (3, 3, 3, 5)) (Fin 0) \<and>
   calculate_iou (1, 1, 1, 1) (3, 3, 3, 5) = Fin 0"
proof -
  have v: "valid_box (0, 0, 0, 4) \<and> valid_box (0, 0, 2, 2)" by (simp add: valid_box_def)
  have n: "box_area (0, 0, 0, 4) \<noteq> NaN \<and> box_area (0, 0, 2, 2) \<noteq> NaN"
    by (simp add: box_area_def f32_eval)
  have d: "degenerate (0, 0, 0, 4)" by (simp add: degenerate_def)
  have u: "f32_eq (union_area (1, 1, 1, 1) (3, 3, 3, 5)) (Fin 0)"
    by (simp add: union_area_def box_area_def intersection_area_def f32_eval)
  from calculate_iou_zero_area [of "(0, 0, 0, 4)" "(0, 0, 2, 2)"] v n d
  have r1: "calculate_iou (0, 0, 0, 4) (0, 0, 2, 2) = Fin 0" by blast
  from calculate_iou_zero_area [of "(1, 1, 1, 1)" "(3, 3, 3, 5)"] u
  have r2: "calculate_iou (1, 1, 1, 1) (3, 3, 3, 5) = Fin 0" by blast
  from v n d r1 u r2 show ?thesis by blast
qed

text \<open>
  Where C6 fails as stated: a valid box of height zero whose width,
  \<open>2^127 - (-2^127)\<close>, overflows to infinity, against a valid box of height
  one.  The intersection is \<open>0 * inf\<close>, which is NaN, and so are the first
  area and the union; the test \<open>union_area == 0\<close> is false and the value
  returned is NaN, not 0.
\<close>

theorem calculate_iou_zero_area_counterexample:
  "valid_box (0, - edge, 0, edge) \<and> valid_box (0, - edge, 1, edge) \<and>
   f32_round edge = Fin edge \<and> degenerate (0, - edge, 0, edge) \<and>
   calculate_iou (0, - edge, 0, edge) (0, - edge, 1, edge) = NaN \<and> NaN \<noteq> Fin 0"
  using edge_facts
  by (simp add: valid_box_def degenerate_def calculate_iou_def Let_def f32_eval)

text \<open>
  C7, as the code has it.  For every non-degenerate box \<open>b\<close> whose computed
  area is greater than zero (it has not underflowed) and for which the sum
  of that area with itself is finite (it does not overflow),
  \<open>calculate_iou b b\<close> is 1.
\<close>

theorem calculate_iou_self:
  assumes "non_degenerate b"
    and "f32_gt (box_area b) (Fin 0)"
    and "is_finite (f32_add (box_area b) (box_area b))"
  shows "calculate_iou b b = Fin 1"
proof -
  from assms(3) obtain a where a: "box_area b = Fin a"
    by (cases "box_area b") simp_all
  from assms(2) a have pos: "0 < a" by (simp add: f32_gt_def)
  from assms(3) a have "is_finite (f32_add (Fin a) (Fin a))" by simp
  with assms(1) a pos show ?thesis by (rule iou_self)
qed

theorem calculate_iou_self_witness:
  "non_degenerate (0, 0, 10, 10) \<and> f32_gt (box_area (0, 0, 10, 10)) (Fin 0) \<and>
   is_finite (f32_add (box_area (0, 0, 10, 10)) (box_area (0, 0, 10, 10))) \<and>
   calculate_iou (0, 0, 10, 10) (0, 0, 10, 10) = Fin 1"
proof -
  have n: "non_degenerate (0, 0, 10, 10)" by (simp add: non_degenerate_def)
  have p: "f32_gt (box_area (0, 0, 10, 10)) (Fin 0)" by (simp add: box_area_def f32_eval)
  have f: "is_finite (f32_add (box_area (0, 0, 10, 10)) (box_area (0, 0, 10, 10)))"
    by (simp add: box_area_def f32_eval)
  from calculate_iou_self [OF n p f] n p f show ?thesis by blast
qed

text \<open>
  Where C7 fails as stated.  A non-degenerate box with sides \<open>2^-100\<close>: its
  area, \<open>2^-200\<close>, underflows to 0, the union is 0 and the guarded branch
  returns 0.  A non-degenerate box with sides \<open>2^63\<close> and \<open>2^64\<close>: its area
  \<open>2^127\<close> is finite, the sum of the two areas overflows to infinity, and
  the quotient returned is 0.  Neither is 1.
\<close>

theorem calculate_iou_self_counterexample:
  "non_degenerate (0, 0, small, small) \<and> f32_round small = Fin small \<and>
   calculate_iou (0, 0, small, small) (0, 0, small, small) = Fin 0 \<and>
   non_degenerate (0, 0, short_side, long_side) \<and>
   f32_round short_side = Fin short_side \<and> f32_round long_side = Fin long_side \<and>
   box_area (0, 0, short_side, long_side) = Fin edge \<and>
   calculate_iou (0, 0, short_side, long_side) (0, 0, short_side, long_side) = Fin 0 \<and>
   Fin 0 \<noteq> Fin 1"
  using small_facts side_facts edge_facts
  by (simp add: non_degenerate_def box_area_def calculate_iou_def Let_def f32_eval)

section \<open>Properties of the evaluation loop\<close>

lemma find_best_index:
  "find_best pb (enumerate n gts) (b0, g0) = (b, g) \<Longrightarrow>
     (b = b0 \<and> g = g0) \<or> (\<exists>j<length gts. g = Some (n + j))"
proof (induction gts arbitrary: n b0 g0)
  case Nil
  then show ?case by simp
next
  case (Cons a gts)
  show ?case
  proof (cases "f32_gt (calculate_iou a pb) b0")
    case True
    with Cons.prems have
      "find_best pb (enumerate (Suc n) gts) (calculate_iou a pb, Some n) = (b, g)"
      by (simp add: Let_def)
    from Cons.IH [OF this] show ?thesis
    proof
      assume "b = calculate_iou a pb \<and> g = Some n"
      then have "0 < length (a # gts) \<and> g = Some (n + 0)" by simp
      then show ?thesis by blast
    next
      assume "\<exists>j<length gts. g = Some (Suc n + j)"
      then obtain j where "j < length gts" "g = Some (Suc n + j)" by blast
      then have "Suc j < length (a # gts) \<and> g = Some (n + Suc j)" by simp
      then show ?thesis by blast
    qed
  next
    case False
    with Cons.prems have "find_best pb (enumerate (Suc n) gts) (b0, g0) = (b, g)"
      by (simp add: Let_def)
    from Cons.IH [OF this] show ?thesis
    proof
      assume "b = b0 \<and> g = g0"
      then show ?thesis by simp
    next
      assume "\<exists>j<length gts. g = Some (Suc n + j)"
      then obtain j where "j < length gts" "g = Some (Suc n + j)" by blast
      then have "Suc j < length (a # gts) \<and> g = Some (n + Suc j)" by simp
      then show ?thesis by blast
    qed
  qed
qed

lemma process_detection_skip:
  "score < 0.5 \<Longrightarrow>
   process_detection iou_threshold gt_boxes gt_labels pred_boxes pred_labels (i, score) st = Inr st"
  by (simp add: process_detection_def)

lemma process_detection_one:
  assumes "\<not> score < 0.5"
    and "process_detection iou_threshold gt_boxes gt_labels pred_boxes pred_labels (i, score) st
           = Inr st'"
  shows "false_negatives st' = false_negatives st \<and>
         ((true_positives st' = true_positives st + 1 \<and> false_positives st' = false_positives st) \<or>
          (true_positives st' = true_positives st \<and> false_positives st' = false_positives st + 1))"
  using assms
  by (auto simp: process_detection_def Let_def
           split: if_splits sum.splits prod.splits option.splits)

lemma process_detection_returns:
  assumes thr: "0 \<le> iou_threshold"
    and ib: "i < length pred_boxes"
    and il: "i < length pred_labels"
    and gl: "length gt_boxes \<le> length gt_labels"
  shows "\<exists>st'. process_detection iou_threshold gt_boxes gt_labels pred_boxes pred_labels (i, score) st
                 = Inr st'"
proof (cases "score < 0.5")
  case True
  then show ?thesis by (simp add: process_detection_skip)
next
  case False
  let ?pb = "convert_box (pred_boxes ! i)"
  obtain b g where f: "find_best ?pb (enumerate 0 gt_boxes) (Fin 0, gt_index st) = (b, g)"
    by (cases "find_best ?pb (enumerate 0 gt_boxes) (Fin 0, gt_index st)") auto
  show ?thesis
  proof (cases "f32_gt b (Fin iou_threshold)")
    case no: False
    with False ib f show ?thesis by (simp add: process_detection_def Let_def)
  next
    case yes: True
    have "b \<noteq> Fin 0" using yes thr by (auto simp: f32_gt_def)
    with find_best_index [OF f] obtain j where j: "j < length gt_boxes" "g = Some j" by auto
    with gl have "j < length gt_labels" by simp
    with False ib il f yes j(2) show ?thesis by (simp add: process_detection_def Let_def)
  qed
qed

lemma detections_loop_count:
  "detections_loop thr gtb gtl pb pl ds st = Inr st' \<Longrightarrow>
     true_positives st' + false_positives st'
       = true_positives st + false_positives st + int (surviving (map snd ds)) \<and>
     false_negatives st' = false_negatives st"
proof (induction ds arbitrary: st)
  case Nil
  then show ?case by (simp add: surviving_def)
next
  case (Cons d ds)
  obtain i score where d: "d = (i, score)" by (cases d) auto
  from Cons.prems obtain s1 where
    s1: "process_detection thr gtb gtl pb pl (i, score) st = Inr s1" and
    rest: "detections_loop thr gtb gtl pb pl ds s1 = Inr st'"
    by (auto simp: d split: sum.splits)
  note ih = Cons.IH [OF rest]
  show ?case
  proof (cases "score < 0.5")
    case True
    with s1 have "s1 = st" by (simp add: process_detection_skip)
    with ih True show ?thesis by (simp add: d surviving_def)
  next
    case False
    from process_detection_one [OF False s1] ih False
    show ?thesis by (auto simp: d surviving_def)
  qed
qed

lemma process_example_count:
  assumes "process_example detector thr ex st = Inr st'"
  shows "true_positives st' + false_positives st'
           = true_positives st + false_positives st
             + int (surviving (detection_scores (detector (ex_image ex))))"
    and "false_negatives st'
           = false_negatives st + (int (length (objects_bbox ex)) - true_positives st')"
proof -
  from assms obtain s1 where
    l: "detections_loop thr (objects_bbox ex) (objects_label ex)
          (detection_boxes (detector (ex_image ex))) (detection_classes (detector (ex_image ex)))
          (enumerate 0 (detection_scores (detector (ex_image ex)))) st = Inr s1" and
    e: "st' = s1\<lparr>false_negatives :=
                   false_negatives s1 + (int (length (objects_bbox ex)) - true_positives s1)\<rparr>"
    by (auto simp: process_example_def Let_def split: sum.splits)
  from detections_loop_count [OF l] e
  show "true_positives st' + false_positives st'
           = true_positives st + false_positives st
             + int (surviving (detection_scores (detector (ex_image ex))))"
    by (simp add: map_snd_enumerate)
  from detections_loop_count [OF l] e
  show "false_negatives st'
           = false_negatives st + (int (length (objects_bbox ex)) - true_positives st')"
    by simp
qed

lemma examples_loop_count:
  "examples_loop detector thr exs st = Inr st' \<Longrightarrow>
     true_positives st' + false_positives st'
       = true_positives st + false_positives st + int (surviving_all detector exs)"
proof (induction exs arbitrary: st)
  case Nil
  then show ?case by (simp add: surviving_all_def)
next
  case (Cons ex exs)
  from Cons.prems obtain s1 where
    s1: "process_example detector thr ex st = Inr s1" and
    rest: "examples_loop detector thr exs s1 = Inr st'"
    by (auto split: sum.splits)
  from Cons.IH [OF rest] process_example_count(1) [OF s1]
  show ?case by (simp add: surviving_all_def)
qed

lemma detections_loop_filter:
  "detections_loop thr gtb gtl pb pl (filter (\<lambda>d. \<not> snd d < 0.5) ds) st
     = detections_loop thr gtb gtl pb pl ds st"
proof (induction ds arbitrary: st)
  case Nil
  show ?case by simp
next
  case (Cons d ds)
  obtain i score where d: "d = (i, score)" by (cases d) auto
  show ?case
  proof (cases "score < 0.5")
    case True
    then show ?thesis using Cons.IH by (simp add: d process_detection_skip)
  next
    case False
    then show ?thesis using Cons.IH by (simp add: d split: sum.splits)
  qed
qed

lemma detections_loop_returns:
  assumes "0 \<le> thr" and "length gtb \<le> length gtl"
    and "\<forall>d\<in>set ds. fst d < length pb \<and> fst d < length pl"
  shows "\<exists>st'. detections_loop thr gtb gtl pb pl ds st = Inr st'"
  using assms(3)
proof (induction ds arbitrary: st)
  case Nil
  show ?case by simp
next
  case (Cons d ds)
  obtain i score where d: "d = (i, score)" by (cases d) auto
  from Cons.prems d have ib: "i < length pb" and il: "i < length pl" by auto
  from process_detection_returns [OF assms(1) ib il assms(2), of score st]
  obtain s1 where s1: "process_detection thr gtb gtl pb pl (i, score) st = Inr s1" ..
  from Cons.prems have "\<forall>d\<in>set ds. fst d < length pb \<and> fst d < length pl" by simp
  from Cons.IH [OF this, of s1] s1 show ?case by (simp add: d)
qed

lemma process_example_returns:
  assumes "0 \<le> thr" and "well_shaped detector ex"
  shows "\<exists>st'. process_example detector thr ex st = Inr st'"
proof -
  let ?r = "detector (ex_image ex)"
  have "\<forall>d\<in>set (enumerate 0 (detection_scores ?r)).
          fst d < length (detection_boxes ?r) \<and> fst d < length (detection_classes ?r)"
    using assms(2) by (auto simp: well_shaped_def in_set_enumerate_eq)
  moreover have "length (objects_bbox ex) \<le> length (objects_label ex)"
    using assms(2) by (simp add: well_shaped_def)
  ultimately obtain s1 where
    "detections_loop thr (objects_bbox ex) (objects_label ex) (detection_boxes ?r)
       (detection_classes ?r) (enumerate 0 (detection_scores ?r)) st = Inr s1"
    using detections_loop_returns [OF assms(1)] by blast
  then show ?thesis by (simp add: process_example_def Let_def)
qed

lemma examples_loop_returns:
  assumes "0 \<le> thr" and "list_all (well_shaped detector) exs"
  shows "\<exists>st'. examples_loop detector thr exs st = Inr st'"
  using assms(2)
proof (induction exs arbitrary: st)
  case Nil
  show ?case by simp
next
  case (Cons ex exs)
  then have w: "well_shaped detector ex" and ws: "list_all (well_shaped detector) exs"
    by simp_all
  from process_example_returns [OF assms(1) w, of st] obtain s1 where
    s1: "process_example detector thr ex st = Inr s1" ..
  from Cons.IH [OF ws, of s1] s1 show ?case by simp
qed

lemma process_detection_no_zero_division:
  "process_detection thr gtb gtl pb pl d st \<noteq> Inl ZeroDivisionError"
  by (auto simp: process_detection_def Let_def
           split: prod.splits sum.splits option.splits if_splits)

lemma detections_loop_no_zero_division:
  "detections_loop thr gtb gtl pb pl ds st \<noteq> Inl ZeroDivisionError"
  by (induction ds arbitrary: st)
     (auto simp: process_detection_no_zero_division split: sum.splits)

lemma process_example_no_zero_division:
  "process_example detector thr ex st \<noteq> Inl ZeroDivisionError"
  by (auto simp: process_example_def Let_def detections_loop_no_zero_division
           split: sum.splits)

lemma examples_loop_no_zero_division:
  "examples_loop detector thr exs st \<noteq> Inl ZeroDivisionError"
  by (induction exs arbitrary: st)
     (auto simp: process_example_no_zero_division split: sum.splits)

lemma summarize_value:
  "summarize st =
     Inr \<lparr>reported_tp = true_positives st, reported_fp = false_positives st,
          reported_fn = false_negatives st,
          precision = (if true_positives st + false_positives st > 0
                       then of_int (true_positives st)
                              / of_int (true_positives st + false_positives st)
                       else 0),
          recall = (if true_positives st + false_negatives st > 0
                    then of_int (true_positives st)
                           / of_int (true_positives st + false_negatives st)
                    else 0)\<rparr>"
  by (simp add: summarize_def truediv_def Let_def)

section \<open>The claims about the evaluation loop\<close>

lemmas fixture_defs =
  square_image_def copies_detector_def unit_square_def initial_state_def
  offset_box_def offset_detector_def far_detector_def

lemmas run_defs =
  evaluate_model_performance_def process_example_def process_detection_def convert_box_def
  calculate_iou_def truediv_def summarize_def Let_def f32_eval

text \<open>
  C1. Claimed: each image adds to \<open>false_negatives\<close> its number of ground-truth
  boxes minus the true positives counted for that image.  The code subtracts
  the running total \<open>true_positives\<close> instead.  On the second of two images,
  each with one ground-truth box matched by one detection, the image has one
  box and one true positive of its own (difference 0), and the counter moves
  by \<open>-1\<close>.
\<close>

theorem false_negatives_subtracts_running_total:
  "process_example copies_detector (1 / 2) (square_image 1) initial_state
     = Inr \<lparr>true_positives = 1, false_positives = 0, false_negatives = 0, gt_index = Some 0\<rparr> \<and>
   process_example copies_detector (1 / 2) (square_image 1)
       \<lparr>true_positives = 1, false_positives = 0, false_negatives = 0, gt_index = Some 0\<rparr>
     = Inr \<lparr>true_positives = 2, false_positives = 0, false_negatives = - 1, gt_index = Some 0\<rparr> \<and>
   int (length (objects_bbox (square_image 1 :: nat example))) - (2 - 1) \<noteq> (- 1) - (0 :: int)"
  by (simp add: fixture_defs run_defs numeral_eq_Suc)

text \<open>
  C2. Claimed: a detection that passes the confidence filter and whose
  highest IoU against the ground-truth boxes of its image exceeds the
  threshold is a true positive when the labels agree.  The code reorders the
  coordinates of the detection's box, \<open>[1, 0, 3, 2]\<close>, before it computes the
  IoU, while the ground-truth boxes and the detector's boxes are in the same
  order (\<open>run_detector_and_visualize\<close> unpacks both as ymin, xmin, ymax,
  xmax).  A detection with exactly the ground-truth box \<open>(0, 2, 1, 3)\<close>, the
  same label and score 0.9 has IoU 1 with that box; the code compares the
  ground-truth box with \<open>(2, 0, 3, 1)\<close>, finds IoU 0 and counts a false
  positive.
\<close>

theorem matching_detection_counted_false_positive:
  "calculate_iou offset_box offset_box = Fin 1 \<and> f32_gt (Fin 1) (Fin (1 / 2)) \<and>
   \<not> (9 / 10 :: real) < 0.5 \<and> [7 :: int] ! 0 = [7] ! 0 \<and>
   calculate_iou offset_box (convert_box offset_box) = Fin 0 \<and>
   process_detection (1 / 2) [offset_box] [7] [offset_box] [7] (0, 9 / 10) initial_state
     = Inr \<lparr>true_positives = 0, false_positives = 1, false_negatives = 0, gt_index = None\<rparr> \<and>
   evaluate_model_performance
       [\<lparr>ex_image = 0, objects_bbox = [offset_box], objects_label = [7]\<rparr>]
       offset_detector (1 / 2) 100
     = Inr \<lparr>reported_tp = 0, reported_fp = 1, reported_fn = 1, precision = 0, recall = 0\<rparr>"
  by (simp add: fixture_defs run_defs numeral_eq_Suc)

text \<open>
  C3, as the code has it.  When the loop over the images completes, the
  function reports the counters, a precision equal to TP/(TP+FP), or 0 when
  TP+FP is 0, and a recall equal to TP/(TP+FN) when TP+FN is positive and 0
  when TP+FN is zero or negative.  No run raises ZeroDivisionError, and a run
  with a non-negative IoU threshold on arrays long enough to be indexed
  produces its report.
\<close>

theorem precision_recall_reported:
  "(examples_loop detector iou_threshold (take num_samples dataset) initial_state = Inr st \<longrightarrow>
      evaluate_model_performance dataset detector iou_threshold num_samples =
        Inr \<lparr>reported_tp = true_positives st, reported_fp = false_positives st,
             reported_fn = false_negatives st,
             precision = (if true_positives st + false_positives st = 0 then 0
                          else of_int (true_positives st)
                                 / of_int (true_positives st + false_positives st)),
             recall = (if true_positives st + false_negatives st > 0
                       then of_int (true_positives st)
                              / of_int (true_positives st + false_negatives st)
                       else 0)\<rparr>) \<and>
   evaluate_model_performance dataset detector iou_threshold num_samples
     \<noteq> Inl ZeroDivisionError \<and>
   (0 \<le> iou_threshold \<and> list_all (well_shaped detector) (take num_samples dataset) \<longrightarrow>
      (\<exists>r. evaluate_model_performance dataset detector iou_threshold num_samples = Inr r))"
proof (intro conjI impI)
  assume l: "examples_loop detector iou_threshold (take num_samples dataset) initial_state = Inr st"
  from examples_loop_count [OF l]
  have "0 \<le> true_positives st + false_positives st" by (simp add: initial_state_def)
  then have "(true_positives st + false_positives st > 0)
               = (true_positives st + false_positives st \<noteq> 0)" by linarith
  then show "evaluate_model_performance dataset detector iou_threshold num_samples =
        Inr \<lparr>reported_tp = true_positives st, reported_fp = false_positives st,
             reported_fn = false_negatives st,
             precision = (if true_positives st + false_positives st = 0 then 0
                          else of_int (true_positives st)
                                 / of_int (true_positives st + false_positives st)),
             recall = (if true_positives st + false_negatives st > 0
                       then of_int (true_positives st)
                              / of_int (true_positives st + false_negatives st)
                       else 0)\<rparr>"
    using l by (simp add: evaluate_model_performance_def summarize_value)
next
  show "evaluate_model_performance dataset detector iou_threshold num_samples
          \<noteq> Inl ZeroDivisionError"
    using examples_loop_no_zero_division
            [of detector iou_threshold "take num_samples dataset" initial_state]
    by (auto simp: evaluate_model_performance_def summarize_value split: sum.splits)
next
  assume "0 \<le> iou_threshold \<and> list_all (well_shaped detector) (take num_samples dataset)"
  then obtain st' where
    "examples_loop detector iou_threshold (take num_samples dataset) initial_state = Inr st'"
    using examples_loop_returns [of iou_threshold detector "take num_samples dataset" initial_state]
    by auto
  then show "\<exists>r. evaluate_model_performance dataset detector iou_threshold num_samples = Inr r"
    by (simp add: evaluate_model_performance_def summarize_value)
qed

theorem precision_recall_reported_witness:
  "(0 :: real) \<le> 1 / 2 \<and>
   list_all (well_shaped copies_detector) (take 100 [square_image 2, square_image 0]) \<and>
   examples_loop copies_detector (1 / 2) (take 100 [square_image 2, square_image 0]) initial_state
     = Inr \<lparr>true_positives = 2, false_positives = 0, false_negatives = - 2,
            gt_index = Some 0\<rparr> \<and>
   evaluate_model_performance [square_image 2, square_image 0] copies_detector (1 / 2) 100
     = Inr \<lparr>reported_tp = 2, reported_fp = 0, reported_fn = - 2, precision = 1, recall = 0\<rparr>"
proof -
  have l: "examples_loop copies_detector (1 / 2) (take 100 [square_image 2, square_image 0])
             initial_state
           = Inr \<lparr>true_positives = 2, false_positives = 0, false_negatives = - 2,
                  gt_index = Some 0\<rparr>"
    by (simp add: fixture_defs run_defs numeral_eq_Suc)
  from precision_recall_reported
         [of copies_detector "1 / 2" 100 "[square_image 2, square_image 0]"
             "\<lparr>true_positives = 2, false_positives = 0, false_negatives = - 2,
               gt_index = Some 0\<rparr>"] l
  have "evaluate_model_performance [square_image 2, square_image 0] copies_detector (1 / 2) 100
     = Inr \<lparr>reported_tp = 2, reported_fp = 0, reported_fn = - 2, precision = 1, recall = 0\<rparr>"
    by simp
  moreover have "(0 :: real) \<le> 1 / 2" by simp
  moreover have "list_all (well_shaped copies_detector)
                   (take 100 [square_image 2, square_image 0])"
    by (simp add: well_shaped_def fixture_defs numeral_eq_Suc)
  ultimately show ?thesis using l by simp
qed

text \<open>
  Where C3 fails as stated: an image with one ground-truth box on which the
  detector fires three times, then an image with one box and no detection.
  The run ends with TP = 3 and FN = -4, so TP/(TP+FN) is \<open>-3\<close>, and the
  recall reported is 0.
\<close>

theorem recall_counterexample:
  "evaluate_model_performance [square_image 3, square_image 0] copies_detector (1 / 2) 100
     = Inr \<lparr>reported_tp = 3, reported_fp = 0, reported_fn = - 4, precision = 1, recall = 0\<rparr> \<and>
   real_of_int 3 / real_of_int (3 + (- 4)) \<noteq> 0"
  by (simp add: fixture_defs run_defs numeral_eq_Suc)

text \<open>
  C4. A detection whose score is below 0.5 leaves the whole state as it was,
  the three counters included; and the loop over an image's detections gives
  the same result with the detections below 0.5 removed beforehand.
\<close>

theorem low_confidence_detection_ignored:
  "(score < 0.5 \<longrightarrow>
      process_detection iou_threshold gt_boxes gt_labels pred_boxes pred_labels (i, score) st
        = Inr st) \<and>
   detections_loop iou_threshold gt_boxes gt_labels pred_boxes pred_labels
       (filter (\<lambda>d. \<not> snd d < 0.5) ds) st
     = detections_loop iou_threshold gt_boxes gt_labels pred_boxes pred_labels ds st"
proof (intro conjI impI)
  assume "score < 0.5"
  then show "process_detection iou_threshold gt_boxes gt_labels pred_boxes pred_labels (i, score) st
               = Inr st"
    by (rule process_detection_skip)
next
  show "detections_loop iou_threshold gt_boxes gt_labels pred_boxes pred_labels
          (filter (\<lambda>d. \<not> snd d < 0.5) ds) st
        = detections_loop iou_threshold gt_boxes gt_labels pred_boxes pred_labels ds st"
    by (rule detections_loop_filter)
qed

theorem low_confidence_detection_ignored_witness:
  "(4 / 10 :: real) < 0.5 \<and>
   process_detection (1 / 2) [unit_square] [7] [unit_square] [7] (0, 4 / 10) initial_state
     = Inr initial_state"
proof -
  have h: "(4 / 10 :: real) < 0.5" by simp
  from low_confidence_detection_ignored
         [of "4 / 10" "1 / 2" "[unit_square]" "[7]" "[unit_square]" "[7]" 0 initial_state "[]"] h
  show ?thesis by blast
qed

text \<open>
  C9, as the code has it.  With a non-negative IoU threshold: a detection
  with score at least 0.5, at an index the box and label arrays have, in an
  image with a label for each ground-truth box, completes its step and adds
  one to exactly one of \<open>true_positives\<close> and \<open>false_positives\<close>.  On arrays
  long enough to be indexed the run reaches every point (after the images
  \<open>exs\<close> and the first \<open>k\<close> detections of the next image \<open>ex\<close>), and there
  \<open>true_positives + false_positives\<close> is the number of detections with score
  at least 0.5 processed so far.
\<close>

theorem positives_count_surviving_detections:
  assumes "0 \<le> iou_threshold"
  shows
  "(\<not> score < 0.5 \<and> i < length pred_boxes \<and> i < length pred_labels \<and>
    length gt_boxes \<le> length gt_labels \<longrightarrow>
      (\<exists>s'. process_detection iou_threshold gt_boxes gt_labels pred_boxes pred_labels (i, score) s
               = Inr s' \<and>
             ((true_positives s' = true_positives s + 1 \<and>
               false_positives s' = false_positives s) \<or>
              (true_positives s' = true_positives s \<and>
               false_positives s' = false_positives s + 1)))) \<and>
   (list_all (well_shaped detector) exs \<and> well_shaped detector ex \<longrightarrow>
      (\<exists>st1 st2.
          examples_loop detector iou_threshold exs initial_state = Inr st1 \<and>
          detections_loop iou_threshold (objects_bbox ex) (objects_label ex)
              (detection_boxes (detector (ex_image ex)))
              (detection_classes (detector (ex_image ex)))
              (take k (enumerate 0 (detection_scores (detector (ex_image ex))))) st1 = Inr st2 \<and>
          true_positives st2 + false_positives st2
            = int (surviving_all detector exs)
              + int (surviving (take k (detection_scores (detector (ex_image ex)))))))"
proof (intro conjI impI)
  assume a: "\<not> score < 0.5 \<and> i < length pred_boxes \<and> i < length pred_labels \<and>
    length gt_boxes \<le> length gt_labels"
  then have ib: "i < length pred_boxes" and il: "i < length pred_labels"
    and gl: "length gt_boxes \<le> length gt_labels" and sc: "\<not> score < 0.5" by simp_all
  from process_detection_returns [OF assms ib il gl, of score s] obtain s' where
    r: "process_detection iou_threshold gt_boxes gt_labels pred_boxes pred_labels (i, score) s
          = Inr s'" ..
  from process_detection_one [OF sc r]
  have "(true_positives s' = true_positives s + 1 \<and> false_positives s' = false_positives s) \<or>
        (true_positives s' = true_positives s \<and> false_positives s' = false_positives s + 1)"
    by simp
  with r show "\<exists>s'. process_detection iou_threshold gt_boxes gt_labels pred_boxes pred_labels
                       (i, score) s = Inr s' \<and>
             ((true_positives s' = true_positives s + 1 \<and>
               false_positives s' = false_positives s) \<or>
              (true_positives s' = true_positives s \<and>
               false_positives s' = false_positives s + 1))"
    by blast
next
  let ?r = "detector (ex_image ex)"
  let ?scores = "detection_scores ?r"
  assume a: "list_all (well_shaped detector) exs \<and> well_shaped detector ex"
  then have ws: "list_all (well_shaped detector) exs" and w: "well_shaped detector ex"
    by simp_all
  from examples_loop_returns [OF assms ws, of initial_state] obtain st1 where
    l1: "examples_loop detector iou_threshold exs initial_state = Inr st1" ..
  have "\<forall>d\<in>set (enumerate 0 ?scores).
          fst d < length (detection_boxes ?r) \<and> fst d < length (detection_classes ?r)"
    using w by (auto simp: well_shaped_def in_set_enumerate_eq)
  then have idx: "\<forall>d\<in>set (take k (enumerate 0 ?scores)).
          fst d < length (detection_boxes ?r) \<and> fst d < length (detection_classes ?r)"
    using set_take_subset [of k "enumerate 0 ?scores"] by blast
  have gl: "length (objects_bbox ex) \<le> length (objects_label ex)"
    using w by (simp add: well_shaped_def)
  from detections_loop_returns [OF assms gl idx, of st1] obtain st2 where
    l2: "detections_loop iou_threshold (objects_bbox ex) (objects_label ex)
           (detection_boxes ?r) (detection_classes ?r) (take k (enumerate 0 ?scores)) st1
         = Inr st2" ..
  have e: "true_positives st1 + false_positives st1 = int (surviving_all detector exs)"
    using examples_loop_count [OF l1] by (simp add: initial_state_def)
  have "map snd (take k (enumerate 0 ?scores)) = take k ?scores"
    by (simp add: take_map [symmetric] map_snd_enumerate)
  with detections_loop_count [OF l2]
  have "true_positives st2 + false_positives st2
          = true_positives st1 + false_positives st1 + int (surviving (take k ?scores))"
    by simp
  with e have "true_positives st2 + false_positives st2
            = int (surviving_all detector exs) + int (surviving (take k ?scores))"
    by simp
  with l1 l2 show "\<exists>st1 st2.
          examples_loop detector iou_threshold exs initial_state = Inr st1 \<and>
          detections_loop iou_threshold (objects_bbox ex) (objects_label ex)
              (detection_boxes ?r) (detection_classes ?r)
              (take k (enumerate 0 ?scores)) st1 = Inr st2 \<and>
          true_positives st2 + false_positives st2
            = int (surviving_all detector exs) + int (surviving (take k ?scores))"
    by blast
qed

theorem positives_count_surviving_detections_witness:
  "(0 :: real) \<le> 1 / 2 \<and> \<not> (9 / 10 :: real) < 0.5 \<and>
   (0 :: nat) < length [unit_square, unit_square] \<and> (0 :: nat) < length [7 :: int, 7] \<and>
   length [unit_square] \<le> length [7 :: int] \<and>
   list_all (well_shaped copies_detector) [square_image 1] \<and>
   well_shaped copies_detector (square_image 2) \<and>
   process_detection (1 / 2) [unit_square] [7] [unit_square, unit_square] [7, 7] (0, 9 / 10)
       \<lparr>true_positives = 1, false_positives = 0, false_negatives = 0, gt_index = Some 0\<rparr>
     = Inr \<lparr>true_positives = 2, false_positives = 0, false_negatives = 0, gt_index = Some 0\<rparr> \<and>
   (\<exists>st1 st2.
      examples_loop copies_detector (1 / 2) [square_image 1] initial_state = Inr st1 \<and>
      detections_loop (1 / 2) (objects_bbox (square_image 2)) (objects_label (square_image 2))
          (detection_boxes (copies_detector (ex_image (square_image 2))))
          (detection_classes (copies_detector (ex_image (square_image 2))))
          (take 1 (enumerate 0 (detection_scores (copies_detector (ex_image (square_image 2))))))
          st1 = Inr st2 \<and>
      true_positives st2 + false_positives st2 = 2)"
proof -
  have t: "(0 :: real) \<le> 1 / 2" by simp
  have h: "\<not> (9 / 10 :: real) < 0.5 \<and>
           (0 :: nat) < length [unit_square, unit_square] \<and> (0 :: nat) < length [7 :: int, 7] \<and>
           length [unit_square] \<le> length [7 :: int]" by simp
  have w: "list_all (well_shaped copies_detector) [square_image 1] \<and>
           well_shaped copies_detector (square_image 2)"
    by (simp add: well_shaped_def fixture_defs numeral_eq_Suc)
  have p: "process_detection (1 / 2) [unit_square] [7] [unit_square, unit_square] [7, 7]
             (0, 9 / 10)
             \<lparr>true_positives = 1, false_positives = 0, false_negatives = 0, gt_index = Some 0\<rparr>
           = Inr \<lparr>true_positives = 2, false_positives = 0, false_negatives = 0,
                  gt_index = Some 0\<rparr>"
    by (simp add: fixture_defs run_defs)
  have n: "int (surviving_all copies_detector [square_image 1])
             + int (surviving (take 1 (detection_scores
                     (copies_detector (ex_image (square_image 2)))))) = 2"
    by (simp add: surviving_all_def surviving_def fixture_defs numeral_eq_Suc)
  from positives_count_surviving_detections
         [OF t, of "9 / 10" 0 "[unit_square, unit_square]" "[7, 7]" "[unit_square]" "[7]"
               "\<lparr>true_positives = 1, false_positives = 0, false_negatives = 0,
                 gt_index = Some 0\<rparr>"
               copies_detector "[square_image 1]" "square_image 2" 1] w
  have "\<exists>st1 st2.
      examples_loop copies_detector (1 / 2) [square_image 1] initial_state = Inr st1 \<and>
      detections_loop (1 / 2) (objects_bbox (square_image 2)) (objects_label (square_image 2))
          (detection_boxes (copies_detector (ex_image (square_image 2))))
          (detection_classes (copies_detector (ex_image (square_image 2))))
          (take 1 (enumerate 0 (detection_scores (copies_detector (ex_image (square_image 2))))))
          st1 = Inr st2 \<and>
      true_positives st2 + false_positives st2
        = int (surviving_all copies_detector [square_image 1])
          + int (surviving (take 1 (detection_scores
                  (copies_detector (ex_image (square_image 2))))))"
    by blast
  then have "\<exists>st1 st2.
      examples_loop copies_detector (1 / 2) [square_image 1] initial_state = Inr st1 \<and>
      detections_loop (1 / 2) (objects_bbox (square_image 2)) (objects_label (square_image 2))
          (detection_boxes (copies_detector (ex_image (square_image 2))))
          (detection_classes (copies_detector (ex_image (square_image 2))))
          (take 1 (enumerate 0 (detection_scores (copies_detector (ex_image (square_image 2))))))
          st1 = Inr st2 \<and>
      true_positives st2 + false_positives st2 = 2"
    by (simp only: n)
  with t h w p show ?thesis by blast
qed

text \<open>
  Where C9 fails as stated: with the IoU threshold \<open>-1/10\<close>, an image with
  one ground-truth box and one detection of score 0.9 that does not overlap
  it.  The initial \<open>best_iou = 0\<close> exceeds the threshold, \<open>gt_index\<close> was never
  assigned, and the step raises: the detection passes the confidence filter
  and increments neither counter, and the run ends without a report.
\<close>

theorem positives_count_counterexample:
  "\<not> (9 / 10 :: real) < 0.5 \<and>
   process_detection (- 1 / 10) [unit_square] [7] [(2, 2, 3, 3)] [7] (0, 9 / 10) initial_state
     = Inl UnboundLocalError \<and>
   evaluate_model_performance [square_image 1] far_detector (- 1 / 10) 100
     = Inl UnboundLocalError"
  by (simp add: fixture_defs run_defs numeral_eq_Suc)

text \<open>
  C10. Two images, each with one ground-truth box (the unit square, label 7)
  and one detection of the same box with the same label and score 0.9, whose
  IoU with the ground-truth box is 1.  The run reports \<open>false_negatives = -1\<close>
  and a recall of 2: the second image adds \<open>1 - 2\<close>, since the running total
  of true positives is then 2.
\<close>

theorem negative_false_negatives_on_two_matched_images:
  "length [square_image 1, square_image 1] = 2 \<and>
   objects_bbox (square_image 1) = [unit_square] \<and>
   objects_label (square_image 1) = [7] \<and>
   copies_detector (ex_image (square_image 1))
     = \<lparr>detection_boxes = [unit_square], detection_scores = [9 / 10],
        detection_classes = [7]\<rparr> \<and>
   calculate_iou unit_square (convert_box unit_square) = Fin 1 \<and>
   evaluate_model_performance [square_image 1, square_image 1] copies_detector (1 / 2) 100
     = Inr \<lparr>reported_tp = 2, reported_fp = 0, reported_fn = - 1, precision = 1, recall = 2\<rparr> \<and>
   (- 1 :: int) < 0 \<and> (1 :: real) < 2"
  by (simp add: fixture_defs run_defs numeral_eq_Suc)

section \<open>Class ids outside the label list\<close>

lemma predicted_loop_unbound:
  assumes "score > 0.5" and "i < length boxes" and "i < length classes"
    and "int (length class_names) \<le> classes ! i"
  shows "predicted_loop class_names boxes classes ((i, score) # rest) None axes
           = Inl UnboundLocalError"
  using assms by simp

lemma predicted_loop_stale:
  assumes "score > 0.5" and "i < length boxes" and "i < length classes"
    and "int (length class_names) \<le> classes ! i"
  shows "predicted_loop class_names boxes classes ((i, score) # rest) (Some previous) axes
           = predicted_loop class_names boxes classes rest (Some previous)
               (axes @ [PredictedPatch (boxes ! i), TextLabel previous score])"
  using assms by simp

lemma print_detected_unknown:
  assumes "score > 0.5" and "i < length classes"
    and "int (length class_names) \<le> classes ! i"
  shows "print_detected class_names classes ((i, score) # rest) out
           = print_detected class_names classes rest (out @ [(''UNKNOWN'', score)])"
  using assms by simp

text \<open>
  C8. Claimed: a detection whose class id is at or past the end of the label
  list is treated as unknown, left out of the labelled output, and causes no
  failure.  In \<open>run_detector_and_visualize\<close> the variable \<open>label\<close> is not
  assigned for such an id.  With the twenty class names and a first detection
  of class 44 (score 0.9) the call raises UnboundLocalError; when a detection
  of class 11 comes first, the detection of class 44 is drawn and labelled
  \<open>dog\<close>, the label of the detection before it.
\<close>

theorem out_of_range_class_id_in_visualize:
  "int (length voc_class_names) \<le> 44 \<and>
   run_detector_and_visualize voc_class_names wide_detector
       \<lparr>ex_image = 0, objects_bbox = [], objects_label = []\<rparr>
     = Inl UnboundLocalError \<and>
   run_detector_and_visualize voc_class_names wide_detector
       \<lparr>ex_image = 1, objects_bbox = [], objects_label = []\<rparr>
     = Inr [PredictedPatch unit_square, TextLabel ''dog'' (9 / 10),
            PredictedPatch unit_square, TextLabel ''dog'' (4 / 5)]"
  by (simp add: run_detector_and_visualize_def voc_class_names_def wide_detector_def
                getitem_def)

lemma print_detected_example:
  "print_detected voc_class_names [11, 44] (enumerate 0 [9 / 10, 4 / 5]) []
     = Inr [(''dog'', 9 / 10), (''UNKNOWN'', 4 / 5)]"
  by (simp add: voc_class_names_def getitem_def)

end
